theory Spec2Isabelle
  imports Complex_Main "HOL-Library.Char_ord" "HOL-Library.List_Lexorder"
    "HOL-Library.Sublist" "HOL-Library.Multiset"
begin


section \<open>Python values and strings\<close>

text \<open>
  A Python \<open>str\<close> is modelled as a \<open>string\<close> whose characters are the code points
  below 256. Payload values are the kinds of value the ingestion path stores in a point:
  \<open>None\<close>, an \<open>int\<close> or a \<open>str\<close>. A payload is a Python \<open>dict\<close> with string keys, kept
  as an association list in insertion order.
\<close>

datatype pyval = PyNone | PyInt int | PyStr string

type_synonym payload = "(string \<times> pyval) list"

type_synonym vector = "real list"

type_synonym bytes = "char list"

text \<open>\<open>d.get(k)\<close>: the value at \<open>k\<close>, or \<open>None\<close> when the key is missing.\<close>

definition payload_get :: "payload \<Rightarrow> string \<Rightarrow> pyval" where
  "payload_get p k = (case map_of p k of None \<Rightarrow> PyNone | Some v \<Rightarrow> v)"

text \<open>Python truthiness of a value: \<open>None\<close>, \<open>0\<close> and \<open>""\<close> are false.\<close>

fun truthy :: "pyval \<Rightarrow> bool" where
  "truthy PyNone = False"
| "truthy (PyInt n) = (n \<noteq> 0)"
| "truthy (PyStr s) = (s \<noteq> [])"

text \<open>\<open>str.isspace\<close> for one character (code points below 256).\<close>

definition py_isspace :: "char \<Rightarrow> bool" where
  "py_isspace c =
     (let n = (of_char c :: nat)
      in (9 \<le> n \<and> n \<le> 13) \<or> (28 \<le> n \<and> n \<le> 32) \<or> n = 133 \<or> n = 160)"

text \<open>\<open>s.strip()\<close>: leading and trailing whitespace removed.\<close>

definition py_strip :: "string \<Rightarrow> string" where
  "py_strip s = rev (dropWhile py_isspace (rev (dropWhile py_isspace s)))"

text \<open>\<open>s.lower()\<close> (code points below 256).\<close>

definition py_lower_char :: "char \<Rightarrow> char" where
  "py_lower_char c =
     (let n = (of_char c :: nat)
      in if (65 \<le> n \<and> n \<le> 90) \<or> (192 \<le> n \<and> n \<le> 222 \<and> n \<noteq> 215)
         then char_of (n + 32) else c)"

definition py_lower :: "string \<Rightarrow> string" where
  "py_lower s = map py_lower_char s"

text \<open>\<open>s.startswith(sub)\<close> and the substring test \<open>sub in s\<close>.\<close>

fun py_startswith :: "string \<Rightarrow> string \<Rightarrow> bool" where
  "py_startswith s [] = True"
| "py_startswith [] (x # xs) = False"
| "py_startswith (c # cs) (x # xs) = (c = x \<and> py_startswith cs xs)"

fun py_contains :: "string \<Rightarrow> string \<Rightarrow> bool" where
  "py_contains sub [] = (sub = [])"
| "py_contains sub (c # cs) = (py_startswith (c # cs) sub \<or> py_contains sub cs)"

text \<open>\<open>sep.join(xs)\<close>.\<close>

fun py_join :: "string \<Rightarrow> string list \<Rightarrow> string" where
  "py_join sep [] = []"
| "py_join sep [x] = x"
| "py_join sep (x # y # ys) = x @ sep @ py_join sep (y # ys)"

text \<open>
  \<open>s.split(sep)\<close> for a non-empty separator: \<open>cur\<close> holds, reversed, the characters of
  the current piece.
\<close>

function split_from :: "string \<Rightarrow> string \<Rightarrow> string \<Rightarrow> string list" where
  "split_from sep cur [] = [rev cur]"
| "split_from sep cur (c # cs) =
     (if py_startswith (c # cs) sep
      then rev cur # split_from sep [] (drop (length sep - 1) cs)
      else split_from sep (c # cur) cs)"
  by pat_completeness auto
termination
  by (relation "measure (\<lambda>(sep, cur, s). length s)") auto

definition py_split :: "string \<Rightarrow> string \<Rightarrow> string list" where
  "py_split s sep = split_from sep [] s"

section \<open>Exceptions and the log\<close>

text \<open>
  Every exception the pipeline can meet is a value. A store error carries the text of
  the exception and its HTTP status code, which the collection check inspects.
\<close>

datatype error =
    StoreError string "int option"
  | EmbeddingError
  | LLMError
  | PdfError
  | SplitterError
  | JSONDecodeError
  | ValueError string
  | IndexError
  | TypeError
  | AttributeError

text \<open>One constructor for each \<open>logging\<close> call of the source.\<close>

datatype log_event =
    IngestionStart string
  | AlreadyProcessed string string
  | ExtractFailed string error
  | NoTextContent string
  | ZeroChunks string
  | StoredChunks nat string
  | ProcessingError string error
  | IngestionEnd
  | CollectionNotFound
  | CreatingCollection
  | CreatingIndexes
  | CollectionCreated
  | VerifyingCollection
  | DimensionMismatch nat nat
  | EnsuringIndexes
  | IndexesConfirmed
  | IndexFailed error
  | InitFailed error
  | ContextSearch
  | QueryInfo string bool
  | RetrievedUnique nat
  | QdrantFailed string error
  | ExpandFailed error

section \<open>The vector store\<close>

text \<open>
  The Qdrant client is an external collaborator. Its collection
  \<open>doc_assist_collection\<close> is modelled by the operations the source calls, with the
  behaviour the client documents: a point is replaced by an upsert of the same id, a
  filter is a conjunction of field conditions, \<open>scroll\<close> returns a page of at most \<open>limit\<close>
  matching points in the store's order of point ids, \<open>search\<close> at most \<open>limit\<close> matching
  points in the order of similarity. Any call can fail: \<open>faults\<close> is the schedule of the coming
  calls, \<open>None\<close> for a call that goes through and \<open>Some (message, status)\<close> for one that
  raises.
\<close>

record point =
  pid :: string
  vec :: vector
  payload :: payload

datatype distance = Cosine | Euclid | Dot

record collection =
  vsize :: nat
  metric :: distance
  indexes :: "string list"
  points :: "point list"

record world =
  coll :: "collection option"
  faults :: "(string \<times> int option) option list"
  logged :: "log_event list"
  uuid_count :: nat

definition logging :: "log_event \<Rightarrow> world \<Rightarrow> world" where
  "logging ev w = w\<lparr>logged := logged w @ [ev]\<rparr>"

definition COLLECTION_NAME :: string where
  "COLLECTION_NAME = ''doc_assist_collection''"

definition EMBEDDING_DIM :: nat where
  "EMBEDDING_DIM = 1024"

definition not_found :: error where
  "not_found = StoreError ''Not found: Collection doc_assist_collection does not exist'' (Some 404)"

text \<open>Each call of the client first meets the next entry of the fault schedule.\<close>

definition store_call :: "world \<Rightarrow> (error + unit) \<times> world" where
  "store_call w =
     (case faults w of
        [] \<Rightarrow> (Inr (), w)
      | None # fs \<Rightarrow> (Inr (), w\<lparr>faults := fs\<rparr>)
      | Some (m, c) # fs \<Rightarrow> (Inl (StoreError m c), w\<lparr>faults := fs\<rparr>))"

datatype condition = MatchValue string pyval | MatchAny string "pyval list"

type_synonym qfilter = "condition list"

fun cond_holds :: "payload \<Rightarrow> condition \<Rightarrow> bool" where
  "cond_holds p (MatchValue k v) = (map_of p k = Some v)"
| "cond_holds p (MatchAny k vs) = (case map_of p k of None \<Rightarrow> False | Some v \<Rightarrow> v \<in> set vs)"

definition matches :: "qfilter \<Rightarrow> point \<Rightarrow> bool" where
  "matches must p = list_all (cond_holds (payload p)) must"

definition get_collection :: "world \<Rightarrow> (error + collection) \<times> world" where
  "get_collection w =
     (case store_call w of
        (Inl e, w') \<Rightarrow> (Inl e, w')
      | (Inr _, w') \<Rightarrow>
          (case coll w' of None \<Rightarrow> (Inl not_found, w') | Some c \<Rightarrow> (Inr c, w')))"

definition recreate_collection :: "nat \<Rightarrow> distance \<Rightarrow> world \<Rightarrow> (error + unit) \<times> world" where
  "recreate_collection n d w =
     (case store_call w of
        (Inl e, w') \<Rightarrow> (Inl e, w')
      | (Inr _, w') \<Rightarrow>
          (Inr (), w'\<lparr>coll := Some \<lparr>vsize = n, metric = d, indexes = [], points = []\<rparr>\<rparr>))"

definition delete_collection :: "world \<Rightarrow> (error + unit) \<times> world" where
  "delete_collection w =
     (case store_call w of
        (Inl e, w') \<Rightarrow> (Inl e, w')
      | (Inr _, w') \<Rightarrow> (Inr (), w'\<lparr>coll := None\<rparr>))"

definition create_payload_index :: "string \<Rightarrow> world \<Rightarrow> (error + unit) \<times> world" where
  "create_payload_index field w =
     (case store_call w of
        (Inl e, w') \<Rightarrow> (Inl e, w')
      | (Inr _, w') \<Rightarrow>
          (case coll w' of
             None \<Rightarrow> (Inl not_found, w')
           | Some c \<Rightarrow>
               (Inr (), w'\<lparr>coll := Some (c\<lparr>indexes :=
                   (if field \<in> set (indexes c) then indexes c else indexes c @ [field])\<rparr>)\<rparr>)))"

fun upsert_point :: "point list \<Rightarrow> point \<Rightarrow> point list" where
  "upsert_point [] p = [p]"
| "upsert_point (q # qs) p = (if pid q = pid p then p # qs else q # upsert_point qs p)"

definition upsert_points :: "point list \<Rightarrow> point list \<Rightarrow> point list" where
  "upsert_points stored batch = foldl upsert_point stored batch"

definition qdrant_upsert :: "point list \<Rightarrow> world \<Rightarrow> (error + unit) \<times> world" where
  "qdrant_upsert batch w =
     (case store_call w of
        (Inl e, w') \<Rightarrow> (Inl e, w')
      | (Inr _, w') \<Rightarrow>
          (case coll w' of
             None \<Rightarrow> (Inl not_found, w')
           | Some c \<Rightarrow>
               (Inr (), w'\<lparr>coll := Some (c\<lparr>points := upsert_points (points c) batch\<rparr>)\<rparr>)))"

section \<open>Collaborators\<close>

text \<open>
  What \<open>json.loads\<close> can return (numbers are kept as integers).
\<close>

datatype json =
    JNull
  | JBool bool
  | JInt int
  | JStr string
  | JArr "json list"
  | JObj "(string \<times> json) list"

text \<open>
  The libraries and services the source calls are parameters of the model; each can
  raise. \<open>pdf_open\<close> is \<open>pdfplumber.open\<close> followed by \<open>extract_text\<close> on every page (a
  page gives a text, \<open>None\<close>, or raises), \<open>split_text\<close> the recursive text splitter with
  its token counter, \<open>embed_documents\<close> and \<open>embed_query\<close> the embedding service, \<open>uuid4\<close>
  the \<open>n\<close>-th identifier drawn from \<open>uuid.uuid4()\<close>, \<open>db_client\<close> the chat model (absent when
  not configured) applied to the user's query under the fixed system prompt, giving
  \<open>response.content\<close>, \<open>json_loads\<close> the JSON decoder, \<open>rank\<close> the store's similarity
  order of the points that match a filter, and \<open>id_key\<close> the place of a point id in the
  order by which the store pages through points.
\<close>

record env =
  pdf_open :: "bytes \<Rightarrow> error + (error + string option) list"
  split_text :: "string \<Rightarrow> error + string list"
  embed_documents :: "string list \<Rightarrow> error + vector list"
  embed_query :: "json \<Rightarrow> error + vector"
  uuid4 :: "nat \<Rightarrow> string"
  db_client :: "(string \<Rightarrow> error + string) option"
  json_loads :: "string \<Rightarrow> error + json"
  rank :: "vector \<Rightarrow> point list \<Rightarrow> point list"
  id_key :: "string \<Rightarrow> nat"

definition qdrant_scroll ::
  "env \<Rightarrow> qfilter \<Rightarrow> nat \<Rightarrow> world \<Rightarrow> (error + point list) \<times> world" where
  "qdrant_scroll env flt limit w =
     (case store_call w of
        (Inl e, w') \<Rightarrow> (Inl e, w')
      | (Inr _, w') \<Rightarrow>
          (case coll w' of
             None \<Rightarrow> (Inl not_found, w')
           | Some c \<Rightarrow>
               (Inr (take limit (sort_key (\<lambda>p. id_key env (pid p))
                                   (filter (matches flt) (points c)))), w')))"

definition qdrant_search ::
  "env \<Rightarrow> vector \<Rightarrow> qfilter \<Rightarrow> nat \<Rightarrow> world \<Rightarrow> (error + point list) \<times> world" where
  "qdrant_search env query_vector flt limit w =
     (case store_call w of
        (Inl e, w') \<Rightarrow> (Inl e, w')
      | (Inr _, w') \<Rightarrow>
          (case coll w' of
             None \<Rightarrow> (Inl not_found, w')
           | Some c \<Rightarrow>
               (Inr (take limit (rank env query_vector (filter (matches flt) (points c)))), w')))"

section \<open>Ingestion: \<open>VectorGenerator\<close>\<close>

record ingest_args =
  user_id :: string
  user_name :: string
  collection_name :: string
  original_filename :: string
  timestamp :: string
  file_content_bytes :: bytes
  file_id :: string

text \<open>The loop over \<open>pdf.pages\<close>: a page without text is skipped, a page that raises ends it.\<close>

fun extract_pages :: "(error + string option) list \<Rightarrow> string list \<Rightarrow> error + string list" where
  "extract_pages [] full_text = Inr full_text"
| "extract_pages (Inl e # pages) full_text = Inl e"
| "extract_pages (Inr None # pages) full_text = extract_pages pages full_text"
| "extract_pages (Inr (Some page_text) # pages) full_text =
     (if page_text \<noteq> [] then extract_pages pages (full_text @ [page_text])
      else extract_pages pages full_text)"

definition extract_text_from_file ::
  "env \<Rightarrow> bytes \<Rightarrow> string \<Rightarrow> world \<Rightarrow> (error + string) \<times> world" where
  "extract_text_from_file env content filename w =
     (case (case pdf_open env content of
              Inl e \<Rightarrow> Inl e
            | Inr pages \<Rightarrow> extract_pages pages []) of
        Inl e \<Rightarrow>
          (Inl (ValueError (''Could not process PDF content for '' @ filename @ ''.'')),
           logging (ExtractFailed filename e) w)
      | Inr full_text \<Rightarrow> (Inr (py_join [CHR 0x0A, CHR 0x0A] full_text), w))"

definition point_payload :: "ingest_args \<Rightarrow> nat \<Rightarrow> string \<Rightarrow> payload" where
  "point_payload d i chunk_text =
     [(''file_id'', PyStr (file_id d)),
      (''user_id'', PyStr (user_id d)),
      (''user_name'', PyStr (user_name d)),
      (''collection_name'', PyStr (collection_name d)),
      (''original_filename'', PyStr (original_filename d)),
      (''timestamp'', PyStr (timestamp d)),
      (''chunk_index'', PyInt (int i)),
      (''text'', PyStr chunk_text)]"

text \<open>
  The comprehension over \<open>enumerate(chunks)\<close>: each point draws a fresh identifier and
  then reads \<open>embeddings[i]\<close>, which raises when the embedder returned too few vectors.
\<close>

fun build_points ::
  "env \<Rightarrow> ingest_args \<Rightarrow> vector list \<Rightarrow> nat \<Rightarrow> string list \<Rightarrow> world
     \<Rightarrow> (error + point list) \<times> world" where
  "build_points env d embeddings i [] w = (Inr [], w)"
| "build_points env d embeddings i (chunk_text # chunks) w =
     (let new_id = uuid4 env (uuid_count w);
          w1 = w\<lparr>uuid_count := Suc (uuid_count w)\<rparr>
      in if i < length embeddings
         then (case build_points env d embeddings (Suc i) chunks w1 of
                 (Inl e, w2) \<Rightarrow> (Inl e, w2)
               | (Inr ps, w2) \<Rightarrow>
                   (Inr (\<lparr>pid = new_id, vec = embeddings ! i,
                          payload = point_payload d i chunk_text\<rparr> # ps), w2))
         else (Inl IndexError, w1))"

definition duplicate_filter :: "ingest_args \<Rightarrow> qfilter" where
  "duplicate_filter d =
     [MatchValue ''file_id'' (PyStr (file_id d)), MatchValue ''user_id'' (PyStr (user_id d))]"

text \<open>The body of the \<open>try\<close> block of \<open>process_document\<close>; every \<open>return\<close> returns \<open>None\<close>.\<close>

definition process_document_try :: "env \<Rightarrow> ingest_args \<Rightarrow> world \<Rightarrow> (error + pyval) \<times> world" where
  "process_document_try env d w =
     (case qdrant_scroll env (duplicate_filter d) 1 w of
        (Inl e, w1) \<Rightarrow> (Inl e, w1)
      | (Inr scroll_response, w1) \<Rightarrow>
          if scroll_response \<noteq> []
          then (Inr PyNone, logging (AlreadyProcessed (file_id d) (user_id d)) w1)
          else
            (case extract_text_from_file env (file_content_bytes d) (original_filename d) w1 of
               (Inl e, w2) \<Rightarrow> (Inl e, w2)
             | (Inr text_content, w2) \<Rightarrow>
                 if text_content = [] \<or> py_strip text_content = []
                 then (Inr PyNone, logging (NoTextContent (original_filename d)) w2)
                 else
                   (case split_text env text_content of
                      Inl e \<Rightarrow> (Inl e, w2)
                    | Inr chunks \<Rightarrow>
                        if chunks = []
                        then (Inr PyNone, logging (ZeroChunks (original_filename d)) w2)
                        else
                          (case embed_documents env chunks of
                             Inl e \<Rightarrow> (Inl e, w2)
                           | Inr embeddings \<Rightarrow>
                               (case build_points env d embeddings 0 chunks w2 of
                                  (Inl e, w3) \<Rightarrow> (Inl e, w3)
                                | (Inr points_to_insert, w3) \<Rightarrow>
                                    if points_to_insert \<noteq> []
                                    then
                                      (case qdrant_upsert points_to_insert w3 of
                                         (Inl e, w4) \<Rightarrow> (Inl e, w4)
                                       | (Inr _, w4) \<Rightarrow>
                                           (Inr PyNone,
                                            logging (StoredChunks (length points_to_insert)
                                                       (original_filename d)) w4))
                                    else (Inr PyNone, w3))))))"

text \<open>
  \<open>process_document\<close>: the start line, the \<open>try\<close> block, the handler that logs and
  re-raises, and the \<open>finally\<close> line.
\<close>

definition process_document :: "env \<Rightarrow> ingest_args \<Rightarrow> world \<Rightarrow> (error + pyval) \<times> world" where
  "process_document env d w =
     (case process_document_try env d (logging (IngestionStart (file_id d)) w) of
        (Inl e, w1) \<Rightarrow>
          (Inl e, logging IngestionEnd (logging (ProcessingError (original_filename d) e) w1))
      | (Inr v, w1) \<Rightarrow> (Inr v, logging IngestionEnd w1))"

text \<open>
  The terminal outcomes the specification names, read off the lines a call has logged:
  \<open>outcome_of w w'\<close> is the outcome of a call that led from \<open>w\<close> to \<open>w'\<close>.
\<close>

datatype outcome = SkippedDuplicate | SkippedEmpty | Ingested nat

fun event_outcome :: "log_event \<Rightarrow> outcome option" where
  "event_outcome (AlreadyProcessed f u) = Some SkippedDuplicate"
| "event_outcome (NoTextContent f) = Some SkippedEmpty"
| "event_outcome (ZeroChunks f) = Some SkippedEmpty"
| "event_outcome (StoredChunks n f) = Some (Ingested n)"
| "event_outcome _ = None"

definition outcome_of :: "world \<Rightarrow> world \<Rightarrow> outcome option" where
  "outcome_of w w' =
     (case List.map_filter event_outcome (drop (length (logged w)) (logged w')) of
        [out] \<Rightarrow> Some out
      | _ \<Rightarrow> None)"

section \<open>The collection check: \<open>_get_or_create_collection\<close>\<close>

text \<open>
  The test the source applies to the exception of the first \<open>get_collection\<close>: its text
  contains \<open>404\<close> or, in lower case, \<open>not found\<close>, or its status code is 404. Only store
  errors are raised there.
\<close>

definition looks_not_found :: "error \<Rightarrow> bool" where
  "looks_not_found e =
     (case e of
        StoreError m c \<Rightarrow>
          py_contains ''404'' m \<or> py_contains ''not found'' (py_lower m) \<or> c = Some 404
      | _ \<Rightarrow> False)"

text \<open>The inner \<open>try\<close>: does the collection exist?\<close>

definition probe_collection :: "world \<Rightarrow> (error + bool) \<times> world" where
  "probe_collection w =
     (case get_collection w of
        (Inl e, w1) \<Rightarrow>
          if looks_not_found e then (Inr False, logging CollectionNotFound w1) else (Inl e, w1)
      | (Inr _, w1) \<Rightarrow> (Inr True, w1))"

text \<open>The branch that creates the collection and its two payload indexes.\<close>

definition create_new_collection :: "world \<Rightarrow> (error + unit) \<times> world" where
  "create_new_collection w =
     (case recreate_collection EMBEDDING_DIM Cosine (logging CreatingCollection w) of
        (Inl e, w1) \<Rightarrow> (Inl e, w1)
      | (Inr _, w1) \<Rightarrow>
          (case create_payload_index ''user_id'' (logging CreatingIndexes w1) of
             (Inl e, w2) \<Rightarrow> (Inl e, w2)
           | (Inr _, w2) \<Rightarrow>
               (case create_payload_index ''file_id'' w2 of
                  (Inl e, w3) \<Rightarrow> (Inl e, w3)
                | (Inr _, w3) \<Rightarrow> (Inr (), logging CollectionCreated w3))))"

text \<open>The branch that re-issues the two payload indexes; its handler logs and re-raises.\<close>

definition ensure_payload_indexes :: "world \<Rightarrow> (error + unit) \<times> world" where
  "ensure_payload_indexes w =
     (case (case create_payload_index ''user_id'' (logging EnsuringIndexes w) of
              (Inl e, w1) \<Rightarrow> (Inl e, w1)
            | (Inr _, w1) \<Rightarrow>
                (case create_payload_index ''file_id'' w1 of
                   (Inl e, w2) \<Rightarrow> (Inl e, w2)
                 | (Inr _, w2) \<Rightarrow> (Inr (), logging IndexesConfirmed w2))) of
        (Inl e, w') \<Rightarrow> (Inl e, logging (IndexFailed e) w')
      | (Inr u, w') \<Rightarrow> (Inr u, w'))"

text \<open>
  \<open>_get_or_create_collection\<close>. On a dimension mismatch the collection is deleted and
  the function calls itself; the outer handler logs every exception, also one that comes
  out of the inner call, and re-raises it.
\<close>

function get_or_create_collection :: "world \<Rightarrow> (error + unit) \<times> world" where
  "get_or_create_collection w =
     (case (case probe_collection w of
              (Inl e, w1) \<Rightarrow> (Inl e, w1)
            | (Inr collection_exists, w1) \<Rightarrow>
                if \<not> collection_exists then create_new_collection w1
                else
                  (case get_collection (logging VerifyingCollection w1) of
                     (Inl e, w2) \<Rightarrow> (Inl e, w2)
                   | (Inr collection_info, w2) \<Rightarrow>
                       if vsize collection_info \<noteq> EMBEDDING_DIM
                       then
                         (case delete_collection
                                 (logging (DimensionMismatch EMBEDDING_DIM
                                             (vsize collection_info)) w2) of
                            (Inl e, w3) \<Rightarrow> (Inl e, w3)
                          | (Inr _, w3) \<Rightarrow> get_or_create_collection w3)
                       else ensure_payload_indexes w2)) of
        (Inl e, w') \<Rightarrow> (Inl e, logging (InitFailed e) w')
      | (Inr u, w') \<Rightarrow> (Inr u, w'))"
  by pat_completeness auto
termination
proof (relation "measure (\<lambda>w. case coll w of
                                 None \<Rightarrow> 0
                               | Some c \<Rightarrow> if vsize c \<noteq> EMBEDDING_DIM then 1 else 0)")
  show "wf (measure (\<lambda>w. case coll w of
                            None \<Rightarrow> 0::nat
                          | Some c \<Rightarrow> if vsize c \<noteq> EMBEDDING_DIM then 1 else 0))"
    by simp
next
  fix w :: world and x1 w1 collection_exists x2 w2 collection_info x3 w3 u
  assume probe: "(x1, w1) = probe_collection w" "x1 = Inr collection_exists"
    and ex: "\<not> \<not> collection_exists"
    and info: "(x2, w2) = get_collection (logging VerifyingCollection w1)"
      "x2 = Inr collection_info"
    and dim: "vsize collection_info \<noteq> EMBEDDING_DIM"
    and del: "(x3, w3) =
        delete_collection (logging (DimensionMismatch EMBEDDING_DIM (vsize collection_info)) w2)"
      "x3 = Inr u"
  from del have after: "coll w3 = None"
    by (auto simp: delete_collection_def store_call_def
        split: prod.splits sum.splits list.splits option.splits)
  from probe have "coll w1 = coll w"
    by (auto simp: probe_collection_def get_collection_def store_call_def logging_def
        split: prod.splits sum.splits list.splits option.splits if_splits)
  moreover from info have "coll w1 = Some collection_info"
    by (auto simp: get_collection_def store_call_def logging_def
        split: prod.splits sum.splits list.splits option.splits)
  ultimately have before: "coll w = Some collection_info"
    by simp
  show "(w3, w) \<in> measure (\<lambda>w. case coll w of
                                 None \<Rightarrow> 0
                               | Some c \<Rightarrow> if vsize c \<noteq> EMBEDDING_DIM then 1 else 0)"
    using dim by (simp add: before after)
qed

declare get_or_create_collection.simps [simp del]

text \<open>
  The number of dimension-mismatch warnings a run from \<open>w\<close> to \<open>w'\<close> has logged; the
  function calls itself only after logging one.
\<close>

fun is_mismatch :: "log_event \<Rightarrow> bool" where
  "is_mismatch (DimensionMismatch expected found) = True"
| "is_mismatch _ = False"

definition mismatch_count :: "world \<Rightarrow> world \<Rightarrow> nat" where
  "mismatch_count w w' = length (filter is_mismatch (drop (length (logged w)) (logged w')))"

section \<open>Retrieval: \<open>ContextRetriever\<close>\<close>

definition TOP_K_RESULTS :: nat where
  "TOP_K_RESULTS = 3"

definition SUMMARY_CHUNK_LIMIT :: nat where
  "SUMMARY_CHUNK_LIMIT = 30"

definition SUMMARIZATION_KEYWORDS :: "string list" where
  "SUMMARIZATION_KEYWORDS =
     [''summarize'', ''summary'', ''overview'', ''gist'', ''main points'',
      ''key points'', ''in short'', ''in brief'', ''what is this about'',
      ''what'' @ [CHR 0x27] @ ''s this about'',
      ''tell me about this file'', ''give me a summary'', ''can you summarize'']"

definition is_summary_request :: "string \<Rightarrow> bool" where
  "is_summary_request query =
     list_ex (\<lambda>keyword. py_contains keyword (py_lower query)) SUMMARIZATION_KEYWORDS"

subsection \<open>Query expansion\<close>

text \<open>
  The fence handling: when the reply contains the opening fence, the text between it
  and the next closing fence is taken (\<open>split(...)[1].split(...)[0]\<close>).
\<close>

definition json_fence :: string where
  "json_fence = [CHR 0x60, CHR 0x60, CHR 0x60] @ ''json''"

definition fence :: string where
  "fence = [CHR 0x60, CHR 0x60, CHR 0x60]"

definition strip_fence :: "string \<Rightarrow> error + string" where
  "strip_fence response_text =
     (if py_contains json_fence response_text
      then (case py_split response_text json_fence of
              _ # piece # _ \<Rightarrow>
                (case py_split piece fence of
                   inner # _ \<Rightarrow> Inr inner
                 | [] \<Rightarrow> Inl IndexError)
            | _ \<Rightarrow> Inl IndexError)
      else Inr response_text)"

text \<open>
  \<open>query in expanded_queries\<close> and \<open>expanded_queries.append(query)\<close> on whatever value
  the decoder returned: membership is element equality on a list, the substring test on
  a string, key membership on an object, and a \<open>TypeError\<close> on the rest; only a list has
  \<open>append\<close>.
\<close>

fun py_in :: "string \<Rightarrow> json \<Rightarrow> error + bool" where
  "py_in q (JArr xs) = Inr (JStr q \<in> set xs)"
| "py_in q (JStr s) = Inr (py_contains q s)"
| "py_in q (JObj kvs) = Inr (q \<in> fst ` set kvs)"
| "py_in q JNull = Inl TypeError"
| "py_in q (JBool b) = Inl TypeError"
| "py_in q (JInt n) = Inl TypeError"

fun py_append :: "json \<Rightarrow> string \<Rightarrow> error + json" where
  "py_append (JArr xs) q = Inr (JArr (xs @ [JStr q]))"
| "py_append JNull q = Inl AttributeError"
| "py_append (JBool b) q = Inl AttributeError"
| "py_append (JInt n) q = Inl AttributeError"
| "py_append (JStr s) q = Inl AttributeError"
| "py_append (JObj kvs) q = Inl AttributeError"

text \<open>The \<open>try\<close> block of \<open>_get_expanded_queries\<close>, for a chat client \<open>invoke\<close>.\<close>

definition expand_try :: "env \<Rightarrow> (string \<Rightarrow> error + string) \<Rightarrow> string \<Rightarrow> error + json" where
  "expand_try env invoke query =
     (case invoke query of
        Inl e \<Rightarrow> Inl e
      | Inr content \<Rightarrow>
          (case strip_fence (py_strip content) of
             Inl e \<Rightarrow> Inl e
           | Inr response_text \<Rightarrow>
               (case json_loads env response_text of
                  Inl e \<Rightarrow> Inl e
                | Inr expanded_queries \<Rightarrow>
                    (case py_in query expanded_queries of
                       Inl e \<Rightarrow> Inl e
                     | Inr present \<Rightarrow>
                         if \<not> present then py_append expanded_queries query
                         else Inr expanded_queries))))"

definition get_expanded_queries :: "env \<Rightarrow> string \<Rightarrow> world \<Rightarrow> json \<times> world" where
  "get_expanded_queries env query w =
     (case db_client env of
        None \<Rightarrow> (JArr [JStr query], w)
      | Some invoke \<Rightarrow>
          (case expand_try env invoke query of
             Inl e \<Rightarrow> (JArr [JStr query], logging (ExpandFailed e) w)
           | Inr expanded_queries \<Rightarrow> (expanded_queries, w)))"

subsection \<open>Search\<close>

definition query_filter :: "string \<Rightarrow> string list \<Rightarrow> qfilter" where
  "query_filter uid fids =
     [MatchValue ''user_id'' (PyStr uid), MatchAny ''file_id'' (map PyStr fids)]"

text \<open>
  What \<open>for eq in expanded_queries\<close> runs over: the elements of a list, the characters
  of a string, the keys of an object.
\<close>

fun py_iter :: "json \<Rightarrow> error + json list" where
  "py_iter (JArr xs) = Inr xs"
| "py_iter (JStr s) = Inr (map (\<lambda>c. JStr [c]) s)"
| "py_iter (JObj kvs) = Inr (map (\<lambda>kv. JStr (fst kv)) kvs)"
| "py_iter JNull = Inl TypeError"
| "py_iter (JBool b) = Inl TypeError"
| "py_iter (JInt n) = Inl TypeError"

text \<open>The loop that embeds each expanded query and accumulates the hits of its search.\<close>

fun fan_out ::
  "env \<Rightarrow> qfilter \<Rightarrow> json list \<Rightarrow> point list \<Rightarrow> world \<Rightarrow> (error + point list) \<times> world" where
  "fan_out env flt [] all_hits w = (Inr all_hits, w)"
| "fan_out env flt (eq # eqs) all_hits w =
     (case embed_query env eq of
        Inl e \<Rightarrow> (Inl e, w)
      | Inr query_vector \<Rightarrow>
          (case qdrant_search env query_vector flt TOP_K_RESULTS w of
             (Inl e, w1) \<Rightarrow> (Inl e, w1)
           | (Inr search_results, w1) \<Rightarrow> fan_out env flt eqs (all_hits @ search_results) w1))"

definition chunk_key :: "point \<Rightarrow> pyval \<times> pyval" where
  "chunk_key hit =
     (payload_get (payload hit) ''file_id'', payload_get (payload hit) ''chunk_index'')"

definition chunk_entry :: "point \<Rightarrow> payload" where
  "chunk_entry hit =
     [(''text'', payload_get (payload hit) ''text''),
      (''original_filename'', payload_get (payload hit) ''original_filename'')]"

text \<open>
  The deduplication loop; \<open>unique_chunks\<close> is the dictionary, in insertion order.
\<close>

fun dedup_hits ::
  "((pyval \<times> pyval) \<times> payload) list \<Rightarrow> point list \<Rightarrow> ((pyval \<times> pyval) \<times> payload) list" where
  "dedup_hits unique_chunks [] = unique_chunks"
| "dedup_hits unique_chunks (hit # hits) =
     (if fst (chunk_key hit) \<noteq> PyNone \<and> snd (chunk_key hit) \<noteq> PyNone
         \<and> chunk_key hit \<notin> fst ` set unique_chunks
         \<and> truthy (payload_get (payload hit) ''text'')
      then dedup_hits (unique_chunks @ [(chunk_key hit, chunk_entry hit)]) hits
      else dedup_hits unique_chunks hits)"

text \<open>
  \<open>sorted(payloads, key=lambda k: k.get('chunk_index', 0))\<close>. A list of fewer than two
  entries is returned as it is; integer keys, or string keys, are sorted stably; any
  other mix of keys makes a comparison raise \<open>TypeError\<close>.
\<close>

definition chunk_index_key :: "payload \<Rightarrow> pyval" where
  "chunk_index_key k = (case map_of k ''chunk_index'' of None \<Rightarrow> PyInt 0 | Some v \<Rightarrow> v)"

fun is_int :: "pyval \<Rightarrow> bool" where
  "is_int (PyInt n) = True"
| "is_int _ = False"

fun is_str :: "pyval \<Rightarrow> bool" where
  "is_str (PyStr s) = True"
| "is_str _ = False"

fun the_int :: "pyval \<Rightarrow> int" where
  "the_int (PyInt n) = n"
| "the_int _ = 0"

fun the_str :: "pyval \<Rightarrow> string" where
  "the_str (PyStr s) = s"
| "the_str _ = []"

definition py_sorted :: "(payload \<Rightarrow> pyval) \<Rightarrow> payload list \<Rightarrow> error + payload list" where
  "py_sorted key xs =
     (if length xs \<le> 1 then Inr xs
      else if list_all (\<lambda>x. is_int (key x)) xs then Inr (sort_key (\<lambda>x. the_int (key x)) xs)
      else if list_all (\<lambda>x. is_str (key x)) xs then Inr (sort_key (\<lambda>x. the_str (key x)) xs)
      else Inl TypeError)"

text \<open>
  The first part of the semantic branch: the expanded queries and the hits accumulated
  over them.
\<close>

definition collect_hits ::
  "env \<Rightarrow> string \<Rightarrow> string \<Rightarrow> string list \<Rightarrow> world \<Rightarrow> (error + point list) \<times> world" where
  "collect_hits env query uid fids w =
     (case get_expanded_queries env query w of
        (expanded_queries, w1) \<Rightarrow>
          (case py_iter expanded_queries of
             Inl e \<Rightarrow> (Inl e, w1)
           | Inr eqs \<Rightarrow> fan_out env (query_filter uid fids) eqs [] w1))"

text \<open>The \<open>try\<close> block of \<open>search\<close>.\<close>

definition search_try ::
  "env \<Rightarrow> string \<Rightarrow> string \<Rightarrow> string list \<Rightarrow> world \<Rightarrow> (error + payload list) \<times> world" where
  "search_try env query uid fids w =
     (if is_summary_request query
      then
        (case qdrant_scroll env (query_filter uid fids) SUMMARY_CHUNK_LIMIT w of
           (Inl e, w1) \<Rightarrow> (Inl e, w1)
         | (Inr scroll_results, w1) \<Rightarrow>
             if scroll_results = [] then (Inr [], w1)
             else
               (case py_sorted chunk_index_key (map payload scroll_results) of
                  Inl e \<Rightarrow> (Inl e, w1)
                | Inr payloads \<Rightarrow> (Inr payloads, w1)))
      else
        (case collect_hits env query uid fids w of
           (Inl e, w2) \<Rightarrow> (Inl e, w2)
         | (Inr all_hits, w2) \<Rightarrow>
             (let retrieved_chunks = map snd (dedup_hits [] all_hits)
              in (Inr retrieved_chunks,
                  logging (RetrievedUnique (length retrieved_chunks)) w2))))"

text \<open>
  \<open>search\<close>: the early return on an empty \<open>file_ids\<close>, the two log lines, the \<open>try\<close> block,
  and the handler that logs the exception and returns the empty list. (\<open>self.qdrant\<close> is
  never false: the constructor raises without a client.)
\<close>

definition search ::
  "env \<Rightarrow> string \<Rightarrow> string \<Rightarrow> string list \<Rightarrow> world \<Rightarrow> (error + payload list) \<times> world" where
  "search env query uid fids w =
     (if fids = [] then (Inr [], w)
      else
        (case search_try env query uid fids
                (logging (QueryInfo query (is_summary_request query)) (logging ContextSearch w)) of
           (Inl e, w1) \<Rightarrow> (Inr [], logging (QdrantFailed uid e) w1)
         | (Inr retrieved, w1) \<Rightarrow> (Inr retrieved, w1)))"

text \<open>
  Vocabulary of the retrieval properties. A hit enters the result only if both parts of
  its key are present and its text is true in Python's sense. \<open>py_le\<close> is Python's \<open>\<le>\<close>
  on the keys it can compare.
\<close>

definition valid_hit :: "point \<Rightarrow> bool" where
  "valid_hit hit =
     (fst (chunk_key hit) \<noteq> PyNone \<and> snd (chunk_key hit) \<noteq> PyNone
      \<and> truthy (payload_get (payload hit) ''text''))"

fun py_le :: "pyval \<Rightarrow> pyval \<Rightarrow> bool" where
  "py_le (PyInt a) (PyInt b) = (a \<le> b)"
| "py_le (PyStr a) (PyStr b) = (a \<le> b)"
| "py_le _ _ = False"

text \<open>
  The lists of keys on which \<open>sorted\<close> does not raise: fewer than two keys, integers
  only, or strings only.
\<close>

definition sortable_keys :: "pyval list \<Rightarrow> bool" where
  "sortable_keys keys = (length keys \<le> 1 \<or> list_all is_int keys \<or> list_all is_str keys)"

text \<open>The next call of the store raises.\<close>

definition next_call_fails :: "world \<Rightarrow> bool" where
  "next_call_fails w = (case faults w of Some f # fs \<Rightarrow> True | _ \<Rightarrow> False)"

text \<open>The queries a search runs over, for the value the expansion returned.\<close>

definition queries_of :: "json \<Rightarrow> json list" where
  "queries_of expanded_queries =
     (case py_iter expanded_queries of Inl e \<Rightarrow> [] | Inr eqs \<Rightarrow> eqs)"

text \<open>
  The hits for which the deduplication loop stores an entry, given the keys already in
  the dictionary.
\<close>

fun kept_hits :: "(pyval \<times> pyval) list \<Rightarrow> point list \<Rightarrow> point list" where
  "kept_hits seen [] = []"
| "kept_hits seen (hit # hits) =
     (if valid_hit hit \<and> chunk_key hit \<notin> set seen
      then hit # kept_hits (seen @ [chunk_key hit]) hits
      else kept_hits seen hits)"

section \<open>A small instance\<close>

text \<open>
  Collaborators, a request and a store used to run the definitions on concrete input.
\<close>

definition demo_env :: env where
  "demo_env =
     \<lparr>pdf_open = (\<lambda>b. Inr [Inr (Some ''alpha beta''), Inr None]),
      split_text = (\<lambda>t. Inr [''alpha'', ''beta'']),
      embed_documents = (\<lambda>cs. Inr (map (\<lambda>c. [0]) cs)),
      embed_query = (\<lambda>q. if q = JStr ''boom'' then Inl EmbeddingError
                          else if q = JStr ''q'' then Inr [1] else Inr [0]),
      uuid4 = (\<lambda>n. replicate (Suc n) CHR ''u''),
      db_client = None,
      json_loads = (\<lambda>s. Inl JSONDecodeError),
      rank = (\<lambda>v ps. if v = [1] then rev ps else ps),
      id_key = length\<rparr>"

definition demo_doc :: ingest_args where
  "demo_doc =
     \<lparr>user_id = ''u1'', user_name = ''Ann'', collection_name = ''c'',
      original_filename = ''a.pdf'', timestamp = ''t'', file_content_bytes = ''%PDF'',
      file_id = ''f1''\<rparr>"

definition demo_world :: world where
  "demo_world =
     \<lparr>coll = Some \<lparr>vsize = 1024, metric = Cosine, indexes = [''user_id'', ''file_id''],
                    points = []\<rparr>,
      faults = [], logged = [], uuid_count = 0\<rparr>"

definition demo_stored :: world where
  "demo_stored =
     \<lparr>coll = Some \<lparr>vsize = 1024, metric = Cosine, indexes = [''user_id'', ''file_id''],
                    points = [\<lparr>pid = ''u'', vec = [0], payload = point_payload demo_doc 0 ''alpha''\<rparr>,
                              \<lparr>pid = ''uu'', vec = [0], payload = point_payload demo_doc 1 ''beta''\<rparr>]\<rparr>,
      faults = [], logged = [IngestionStart ''f1'', StoredChunks 2 ''a.pdf'', IngestionEnd],
      uuid_count = 2\<rparr>"

text \<open>A store whose collection has the wrong vector size.\<close>

definition demo_mismatch :: world where
  "demo_mismatch =
     \<lparr>coll = Some \<lparr>vsize = 768, metric = Cosine, indexes = [''user_id''],
                    points = [\<lparr>pid = ''old'', vec = [0],
                               payload = point_payload demo_doc 0 ''alpha''\<rparr>]\<rparr>,
      faults = [None, None, None, None, None, None, None, Some (''timeout'', None)],
      logged = [], uuid_count = 0\<rparr>"

text \<open>
  A store with four points of one file, in neither chunk order nor the order of their
  ids, the last with an empty text; a chat client that answers with a fixed reply; and a decoder that decodes the
  texts of three arrays of strings (also between line breaks) and fails on every other
  text.
\<close>

definition demo_points :: "point list" where
  "demo_points =
     [\<lparr>pid = ''ccc'', vec = [0], payload = point_payload demo_doc 2 ''gamma''\<rparr>,
      \<lparr>pid = ''dddd'', vec = [0], payload = point_payload demo_doc 0 ''alpha''\<rparr>,
      \<lparr>pid = ''a'', vec = [0], payload = point_payload demo_doc 1 ''beta''\<rparr>,
      \<lparr>pid = ''bb'', vec = [0], payload = point_payload demo_doc 3 []\<rparr>]"

definition demo_search_world :: world where
  "demo_search_world =
     \<lparr>coll = Some \<lparr>vsize = 1024, metric = Cosine, indexes = [''user_id'', ''file_id''],
                    points = demo_points\<rparr>,
      faults = [], logged = [], uuid_count = 0\<rparr>"

definition demo_json_array :: "string list \<Rightarrow> string" where
  "demo_json_array xs =
     ''['' @ py_join '', '' (map (\<lambda>s. [CHR 0x22] @ s @ [CHR 0x22]) xs) @ '']''"

definition demo_known :: "string list list" where
  "demo_known = [[''a'', ''b'', ''c'', ''d'', ''e''], [''a'', ''a'', ''b''], [''a'']]"

definition demo_json_loads :: "string \<Rightarrow> error + json" where
  "demo_json_loads s =
     (case find (\<lambda>xs. s = demo_json_array xs
                      \<or> s = [CHR 0x0A] @ demo_json_array xs @ [CHR 0x0A]) demo_known of
        Some xs \<Rightarrow> Inr (JArr (map JStr xs))
      | None \<Rightarrow> Inl JSONDecodeError)"

definition demo_llm :: "string \<Rightarrow> env" where
  "demo_llm reply =
     demo_env\<lparr>db_client := Some (\<lambda>q. Inr reply), json_loads := demo_json_loads\<rparr>"

definition demo_fenced_reply :: string where
  "demo_fenced_reply =
     json_fence @ [CHR 0x0A] @ demo_json_array [''a''] @ [CHR 0x0A] @ fence @ [CHR 0x0A]"

definition demo_empty_pdf :: env where
  "demo_empty_pdf = demo_env\<lparr>pdf_open := (\<lambda>b. Inr [Inr None])\<rparr>"

section \<open>Properties of ingestion\<close>

lemma store_call_keeps:
  "store_call w = (r, w') \<Longrightarrow>
     coll w' = coll w \<and> logged w' = logged w \<and> uuid_count w' = uuid_count w"
  by (auto simp: store_call_def split: list.splits option.splits)

lemma logging_keeps [simp]:
  "coll (logging ev w) = coll w"
  "faults (logging ev w) = faults w"
  "uuid_count (logging ev w) = uuid_count w"
  "logged (logging ev w) = logged w @ [ev]"
  by (simp_all add: logging_def)

lemma scroll_keeps:
  assumes "qdrant_scroll env flt limit w = (r, w')"
  shows "coll w' = coll w \<and> logged w' = logged w \<and> uuid_count w' = uuid_count w"
    and "r = Inr ps \<Longrightarrow>
           \<exists>c. coll w = Some c \<and>
               ps = take limit (sort_key (\<lambda>p. id_key env (pid p))
                                  (filter (matches flt) (points c)))"
  using assms
  by (auto simp: qdrant_scroll_def split: prod.splits sum.splits option.splits
      dest!: store_call_keeps)

lemma upsert_keeps:
  assumes "qdrant_upsert batch w = (r, w')"
  shows "logged w' = logged w \<and> uuid_count w' = uuid_count w"
    and "r = Inr u \<Longrightarrow>
           \<exists>c. coll w = Some c \<and> coll w' = Some (c\<lparr>points := upsert_points (points c) batch\<rparr>)"
    and "r = Inl e \<Longrightarrow> coll w' = coll w"
  using assms
  by (auto simp: qdrant_upsert_def split: prod.splits sum.splits option.splits
      dest!: store_call_keeps)

lemma extract_fst:
  "fst (extract_text_from_file env b f w) = fst (extract_text_from_file env b f w0)"
  by (simp add: extract_text_from_file_def split: sum.splits)

lemma extract_keeps:
  assumes "extract_text_from_file env b f w = (r, w')"
  shows "coll w' = coll w \<and> uuid_count w' = uuid_count w \<and> faults w' = faults w"
    and "r = Inr t \<Longrightarrow> w' = w"
    and "r = Inl e \<Longrightarrow> \<exists>e'. logged w' = logged w @ [ExtractFailed f e']"
  using assms
  by (auto simp: extract_text_from_file_def split: sum.splits)

lemma build_points_keeps:
  "build_points env d embeddings i chunks w = (r, w') \<Longrightarrow>
     coll w' = coll w \<and> logged w' = logged w \<and> faults w' = faults w"
proof (induction chunks arbitrary: i w r w')
  case Nil
  then show ?case by simp
next
  case (Cons chunk_text chunks)
  then show ?case
    by (fastforce simp: Let_def split: if_splits prod.splits sum.splits)
qed

lemma build_points_ok:
  "build_points env d embeddings i chunks w = (Inr ps, w') \<Longrightarrow>
     map payload ps = map (\<lambda>(k, chunk_text). point_payload d k chunk_text)
                          (zip [i..<i + length chunks] chunks)"
proof (induction chunks arbitrary: i w ps w')
  case Nil
  then show ?case by simp
next
  case (Cons chunk_text chunks)
  from Cons.prems obtain qs w2 where
    rec: "build_points env d embeddings (Suc i) chunks (w\<lparr>uuid_count := Suc (uuid_count w)\<rparr>) = (Inr qs, w2)"
    and ps: "payload (hd ps) = point_payload d i chunk_text" "tl ps = qs" "ps \<noteq> []"
    by (auto simp: Let_def split: if_splits prod.splits sum.splits)
  from Cons.IH[OF rec] have "map payload qs = map (\<lambda>(k, chunk_text). point_payload d k chunk_text)
                          (zip [Suc i..<Suc i + length chunks] chunks)" .
  moreover have "[i..<i + length (chunk_text # chunks)] = i # [Suc i..<Suc i + length chunks]"
    by (simp add: upt_rec)
  ultimately show ?case using ps by (cases ps) auto
qed


lemma build_points_length:
  "build_points env d embeddings i chunks w = (Inr ps, w') \<Longrightarrow> length ps = length chunks"
  using build_points_ok[of env d embeddings i chunks w ps w']
  by (metis (no_types, lifting) length_map length_zip length_upt add_diff_cancel_left' min.idem)

lemma process_document_try_cases:
  assumes run: "process_document_try env d w = (r, w')"
  obtains
    (failed) e where "r = Inl e" "coll w' = coll w"
      "logged w' = logged w \<or> (\<exists>e'. logged w' = logged w @ [ExtractFailed (original_filename d) e'])"
  | (duplicate) c where "r = Inr PyNone" "coll w' = coll w" "uuid_count w' = uuid_count w"
      "logged w' = logged w @ [AlreadyProcessed (file_id d) (user_id d)]"
      "coll w = Some c" "\<exists>p\<in>set (points c). matches (duplicate_filter d) p"
  | (no_text) "r = Inr PyNone" "coll w' = coll w"
      "logged w' = logged w @ [NoTextContent (original_filename d)]"
  | (zero_chunks) "r = Inr PyNone" "coll w' = coll w"
      "logged w' = logged w @ [ZeroChunks (original_filename d)]"
  | (stored) c text_content chunks batch where "r = Inr PyNone" "coll w = Some c"
      "fst (extract_text_from_file env (file_content_bytes d) (original_filename d) w)
         = Inr text_content"
      "split_text env text_content = Inr chunks" "chunks \<noteq> []"
      "map payload batch = map (\<lambda>(k, chunk_text). point_payload d k chunk_text)
                               (zip [0..<length chunks] chunks)"
      "coll w' = Some (c\<lparr>points := upsert_points (points c) batch\<rparr>)"
      "logged w' = logged w @ [StoredChunks (length chunks) (original_filename d)]"
proof -
  obtain r1 w1 where s1: "qdrant_scroll env (duplicate_filter d) 1 w = (r1, w1)"
    by (cases "qdrant_scroll env (duplicate_filter d) 1 w")
  note k1 = scroll_keeps(1)[OF s1]
  show thesis
  proof (cases r1)
    case (Inl e)
    with run s1 have "r = Inl e" "w' = w1" by (simp_all add: process_document_try_def)
    with k1 show thesis by (intro failed[of e]) simp_all
  next
    case (Inr scroll_response)
    from scroll_keeps(2)[OF s1 Inr] obtain c where
      c: "coll w = Some c"
         "scroll_response = take 1 (sort_key (\<lambda>p. id_key env (pid p))
                                      (filter (matches (duplicate_filter d)) (points c)))"
      by blast
    show thesis
    proof (cases "scroll_response = []")
      case False
      with run s1 Inr have rw: "r = Inr PyNone"
        "w' = logging (AlreadyProcessed (file_id d) (user_id d)) w1"
        by (simp_all add: process_document_try_def)
      from False c(2) have "sort_key (\<lambda>p. id_key env (pid p))
                              (filter (matches (duplicate_filter d)) (points c)) \<noteq> []"
        by auto
      then have "length (filter (matches (duplicate_filter d)) (points c)) \<noteq> 0"
        by (metis length_sort length_0_conv)
      then have "filter (matches (duplicate_filter d)) (points c) \<noteq> []" by simp
      then have "\<exists>p\<in>set (points c). matches (duplicate_filter d) p"
        by (simp add: filter_empty_conv)
      with rw k1 c(1) show thesis by (intro duplicate[of c]) simp_all
    next
      case True
      obtain r2 w2 where s2:
        "extract_text_from_file env (file_content_bytes d) (original_filename d) w1 = (r2, w2)"
        by (cases "extract_text_from_file env (file_content_bytes d) (original_filename d) w1")
      note k2 = extract_keeps(1)[OF s2]
      show thesis
      proof (cases r2)
        case (Inl e)
        with run s1 Inr True s2 have "r = Inl e" "w' = w2"
          by (simp_all add: process_document_try_def)
        with k1 k2 extract_keeps(3)[OF s2 Inl] show thesis
          by (intro failed[of e]) auto
      next
        case r2: (Inr text_content)
        from extract_keeps(2)[OF s2 r2] have w2: "w2 = w1" .
        have ex: "fst (extract_text_from_file env (file_content_bytes d) (original_filename d) w)
                    = Inr text_content"
          using s2 r2 extract_fst[of env "file_content_bytes d" "original_filename d" w w1]
          by simp
        show thesis
        proof (cases "text_content = [] \<or> py_strip text_content = []")
          case True
          with run s1 Inr \<open>scroll_response = []\<close> s2 r2 have "r = Inr PyNone"
            "w' = logging (NoTextContent (original_filename d)) w2"
            by (simp_all add: process_document_try_def)
          with k1 w2 show thesis by (intro no_text) simp_all
        next
          case nonblank: False
          show thesis
          proof (cases "split_text env text_content")
            case (Inl e)
            with run s1 Inr True s2 r2 nonblank have "r = Inl e" "w' = w2"
              by (simp_all add: process_document_try_def)
            with k1 w2 show thesis by (intro failed[of e]) simp_all
          next
            case sp: (Inr chunks)
            show thesis
            proof (cases "chunks = []")
              case True
              with run s1 Inr \<open>scroll_response = []\<close> s2 r2 nonblank sp have "r = Inr PyNone"
                "w' = logging (ZeroChunks (original_filename d)) w2"
                by (simp_all add: process_document_try_def)
              with k1 w2 show thesis by (intro zero_chunks) simp_all
            next
              case chunks: False
              show thesis
              proof (cases "embed_documents env chunks")
                case (Inl e)
                with run s1 Inr True s2 r2 nonblank sp chunks have "r = Inl e" "w' = w2"
                  by (simp_all add: process_document_try_def)
                with k1 w2 show thesis by (intro failed[of e]) simp_all
              next
                case em: (Inr embeddings)
                obtain r3 w3 where s3: "build_points env d embeddings 0 chunks w2 = (r3, w3)"
                  by (cases "build_points env d embeddings 0 chunks w2")
                note k3 = build_points_keeps[OF s3]
                show thesis
                proof (cases r3)
                  case (Inl e)
                  with run s1 Inr True s2 r2 nonblank sp chunks em s3 have "r = Inl e" "w' = w3"
                    by (simp_all add: process_document_try_def)
                  with k1 w2 k3 show thesis by (intro failed[of e]) simp_all
                next
                  case r3: (Inr batch)
                  from s3 r3 have len: "length batch = length chunks"
                    by (simp add: build_points_length)
                  with chunks have ne: "batch \<noteq> []" by auto
                  from s3 r3 have pl: "map payload batch =
                      map (\<lambda>(k, chunk_text). point_payload d k chunk_text)
                          (zip [0..<length chunks] chunks)"
                    using build_points_ok[of env d embeddings 0 chunks w2 batch w3] by simp
                  obtain r4 w4 where s4: "qdrant_upsert batch w3 = (r4, w4)"
                    by (cases "qdrant_upsert batch w3")
                  note k4 = upsert_keeps[OF s4]
                  show thesis
                  proof (cases r4)
                    case (Inl e)
                    with run s1 Inr True s2 r2 nonblank sp chunks em s3 r3 ne s4
                    have "r = Inl e" "w' = w4"
                      by (simp_all add: process_document_try_def)
                    with k1 w2 k3 k4(1) k4(3)[OF Inl] show thesis
                      by (intro failed[of e]) simp_all
                  next
                    case r4: (Inr u)
                    with run s1 Inr True s2 r2 nonblank sp chunks em s3 r3 ne s4
                    have rw: "r = Inr PyNone"
                      "w' = logging (StoredChunks (length batch) (original_filename d)) w4"
                      by (simp_all add: process_document_try_def)
                    from k4(2)[OF r4] obtain c' where
                      c': "coll w3 = Some c'"
                          "coll w4 = Some (c'\<lparr>points := upsert_points (points c') batch\<rparr>)"
                      by blast
                    with k3 w2 k1 c(1) have "c' = c" by simp
                    with rw c' k1 w2 k3 k4(1) len c(1) ex sp chunks pl show thesis
                      by (intro stored[of c text_content chunks batch]) simp_all
                  qed
                qed
              qed
            qed
          qed
        qed
      qed
    qed
  qed
qed

lemma store_call_result:
  "fst (store_call w) =
     (case faults w of Some (m, c) # fs \<Rightarrow> Inl (StoreError m c) | _ \<Rightarrow> Inr ())"
  by (simp add: store_call_def split: list.splits option.splits)

lemma scroll_finds_duplicate:
  assumes "coll w = Some c" and "\<exists>p\<in>set (points c). matches flt p"
  shows "\<exists>w'. coll w' = coll w \<and> logged w' = logged w \<and> uuid_count w' = uuid_count w \<and>
           (case faults w of
              Some (m, s) # fs \<Rightarrow> qdrant_scroll env flt 1 w = (Inl (StoreError m s), w')
            | _ \<Rightarrow> (\<exists>p ps. qdrant_scroll env flt 1 w = (Inr (p # ps), w')))"
proof -
  obtain r w' where sc: "store_call w = (r, w')" by (cases "store_call w")
  from store_call_keeps[OF sc] have keep: "coll w' = coll w" "logged w' = logged w" "uuid_count w' = uuid_count w"
    by simp_all
  from assms(2) have "filter (matches flt) (points c) \<noteq> []"
    by (simp add: filter_empty_conv)
  then have "length (sort_key (\<lambda>p. id_key env (pid p)) (filter (matches flt) (points c))) \<noteq> 0"
    by simp
  then obtain p ps where tk: "take 1 (sort_key (\<lambda>p. id_key env (pid p))
                                        (filter (matches flt) (points c))) = p # ps"
    by (cases "sort_key (\<lambda>p. id_key env (pid p)) (filter (matches flt) (points c))") auto
  have r: "r = (case faults w of Some (m, c) # fs \<Rightarrow> Inl (StoreError m c) | _ \<Rightarrow> Inr ())"
    using store_call_result[of w] sc by simp
  show ?thesis
  proof (intro exI[of _ w'] conjI keep)
    show "case faults w of
            Some (m, s) # fs \<Rightarrow> qdrant_scroll env flt 1 w = (Inl (StoreError m s), w')
          | _ \<Rightarrow> (\<exists>p ps. qdrant_scroll env flt 1 w = (Inr (p # ps), w'))"
      using sc r keep(1) assms(1) tk
      by (auto simp: qdrant_scroll_def split: list.splits option.splits)
  qed
qed

lemma outcome_of_suffix:
  "logged w' = logged w @ evs \<Longrightarrow>
     outcome_of w w' = (case List.map_filter event_outcome evs of [out] \<Rightarrow> Some out | _ \<Rightarrow> None)"
  by (simp add: outcome_of_def)

lemma upsert_point_member: "p \<in> set (upsert_point qs p)"
  by (induction qs) auto

lemma upsert_points_last:
  "batch \<noteq> [] \<Longrightarrow> last batch \<in> set (upsert_points stored batch)"
proof (induction batch rule: rev_induct)
  case Nil
  then show ?case by simp
next
  case (snoc p batch)
  then show ?case by (simp add: upsert_points_def upsert_point_member)
qed

lemma point_payload_matches:
  "payload p = point_payload d i t \<Longrightarrow> file_id d' = file_id d \<Longrightarrow> user_id d' = user_id d
     \<Longrightarrow> matches (duplicate_filter d') p"
  by (simp add: matches_def duplicate_filter_def point_payload_def)

lemma process_document_cases:
  assumes run: "process_document env d w = (r, w')"
  obtains
    (failed) e where "r = Inl e" "coll w' = coll w" "outcome_of w w' = None"
  | (duplicate) c where "r = Inr PyNone" "coll w' = coll w" "uuid_count w' = uuid_count w"
      "logged w' = logged w @ [IngestionStart (file_id d),
                               AlreadyProcessed (file_id d) (user_id d), IngestionEnd]"
      "coll w = Some c" "\<exists>p\<in>set (points c). matches (duplicate_filter d) p"
  | (no_text) "r = Inr PyNone" "coll w' = coll w"
      "logged w' = logged w @ [IngestionStart (file_id d),
                               NoTextContent (original_filename d), IngestionEnd]"
  | (zero_chunks) "r = Inr PyNone" "coll w' = coll w"
      "logged w' = logged w @ [IngestionStart (file_id d),
                               ZeroChunks (original_filename d), IngestionEnd]"
  | (stored) c text_content chunks batch where "r = Inr PyNone" "coll w = Some c"
      "fst (extract_text_from_file env (file_content_bytes d) (original_filename d) w)
         = Inr text_content"
      "split_text env text_content = Inr chunks" "chunks \<noteq> []"
      "map payload batch = map (\<lambda>(k, chunk_text). point_payload d k chunk_text)
                               (zip [0..<length chunks] chunks)"
      "coll w' = Some (c\<lparr>points := upsert_points (points c) batch\<rparr>)"
      "logged w' = logged w @ [IngestionStart (file_id d),
                               StoredChunks (length chunks) (original_filename d), IngestionEnd]"
proof -
  let ?w0 = "logging (IngestionStart (file_id d)) w"
  obtain r0 w1 where t: "process_document_try env d ?w0 = (r0, w1)"
    by (cases "process_document_try env d ?w0")
  have fin: "r = r0"
    "w' = (case r0 of Inl e \<Rightarrow> logging IngestionEnd (logging (ProcessingError (original_filename d) e) w1)
           | Inr v \<Rightarrow> logging IngestionEnd w1)"
    using run t by (auto simp: process_document_def split: sum.splits)
  from t show thesis
  proof (cases rule: process_document_try_cases)
    case (failed e)
    from failed(3) have "outcome_of w w' = None"
    proof
      assume "logged w1 = logged ?w0"
      with fin failed(1) have "logged w' = logged w @ [IngestionStart (file_id d),
          ProcessingError (original_filename d) e, IngestionEnd]" by simp
      then show ?thesis by (simp add: outcome_of_suffix List.map_filter_simps)
    next
      assume "\<exists>e'. logged w1 = logged ?w0 @ [ExtractFailed (original_filename d) e']"
      then obtain e' where "logged w1 = logged ?w0 @ [ExtractFailed (original_filename d) e']" ..
      with fin failed(1) have "logged w' = logged w @ [IngestionStart (file_id d),
          ExtractFailed (original_filename d) e',
          ProcessingError (original_filename d) e, IngestionEnd]" by simp
      then show ?thesis by (simp add: outcome_of_suffix List.map_filter_simps)
    qed
    with fin failed(1,2) show thesis by (intro that(1)[of e]) simp_all
  next
    case (duplicate c)
    with fin show thesis by (intro that(2)[of c]) simp_all
  next
    case no_text
    with fin show thesis by (intro that(3)) simp_all
  next
    case zero_chunks
    with fin show thesis by (intro that(4)) simp_all
  next
    case (stored c text_content chunks batch)
    have "fst (extract_text_from_file env (file_content_bytes d) (original_filename d) w)
            = Inr text_content"
      using stored(3) extract_fst[of env "file_content_bytes d" "original_filename d" w ?w0]
      by simp
    with fin stored show thesis by (intro that(5)[of c text_content chunks batch]) simp_all
  qed
qed


lemmas demo_eval = process_document_def process_document_try_def qdrant_scroll_def qdrant_upsert_def store_call_def
  logging_def extract_text_from_file_def duplicate_filter_def matches_def point_payload_def
  upsert_points_def demo_env_def demo_empty_pdf_def demo_doc_def demo_world_def outcome_of_def List.map_filter_simps Let_def py_strip_def py_isspace_def


lemma duplicate_call:
  assumes "coll w = Some c" and "\<exists>p\<in>set (points c). matches (duplicate_filter d) p"
  shows "coll (snd (process_document env d w)) = coll w \<and>
         uuid_count (snd (process_document env d w)) = uuid_count w \<and>
         (case faults w of
            Some (m, s) # fs \<Rightarrow>
              fst (process_document env d w) = Inl (StoreError m s) \<and>
              logged (snd (process_document env d w)) =
                logged w @ [IngestionStart (file_id d),
                            ProcessingError (original_filename d) (StoreError m s), IngestionEnd]
          | _ \<Rightarrow>
              fst (process_document env d w) = Inr PyNone \<and>
              logged (snd (process_document env d w)) =
                logged w @ [IngestionStart (file_id d),
                            AlreadyProcessed (file_id d) (user_id d), IngestionEnd])"
proof -
  let ?w0 = "logging (IngestionStart (file_id d)) w"
  have c0: "coll ?w0 = Some c" using assms(1) by simp
  from scroll_finds_duplicate[OF c0 assms(2), where env = env]
  obtain w' where keep: "coll w' = coll ?w0" "logged w' = logged ?w0" "uuid_count w' = uuid_count ?w0"
    and res: "case faults ?w0 of
              Some (m, s) # fs \<Rightarrow> qdrant_scroll env (duplicate_filter d) 1 ?w0 = (Inl (StoreError m s), w')
            | _ \<Rightarrow> (\<exists>p ps. qdrant_scroll env (duplicate_filter d) 1 ?w0 = (Inr (p # ps), w'))"
    by blast
  show ?thesis
  proof (cases "\<exists>m s fs. faults w = Some (m, s) # fs")
    case True
    then obtain m s fs where f: "faults w = Some (m, s) # fs" by blast
    with res have "qdrant_scroll env (duplicate_filter d) 1 ?w0 = (Inl (StoreError m s), w')" by simp
    then show ?thesis using keep f
      by (simp add: process_document_def process_document_try_def)
  next
    case False
    with res obtain p ps where "qdrant_scroll env (duplicate_filter d) 1 ?w0 = (Inr (p # ps), w')"
      by (auto split: list.splits option.splits)
    then show ?thesis using keep False
      by (auto simp add: process_document_def process_document_try_def split: list.splits option.splits)
  qed
qed

lemma stored_batch_matches:
  assumes "map payload batch = map (\<lambda>(k, chunk_text). point_payload d k chunk_text)
                                   (zip [0..<length chunks] chunks)"
    and "chunks \<noteq> []" and "file_id d' = file_id d" and "user_id d' = user_id d"
  shows "\<exists>p\<in>set (upsert_points stored batch). matches (duplicate_filter d') p"
proof -
  from assms(1) have "length (map payload batch) = length (zip [0..<length chunks] chunks)"
    by (metis length_map)
  then have len: "length batch = length chunks" by simp
  with assms(2) have ne: "batch \<noteq> []" by auto
  then have "last batch \<in> set batch" by simp
  then have "payload (last batch) \<in> set (map payload batch)" by simp
  with assms(1) obtain k t where "payload (last batch) = point_payload d k t"
    by auto
  then have "matches (duplicate_filter d') (last batch)"
    using assms(3,4) by (rule point_payload_matches)
  with upsert_points_last[OF ne, of stored] show ?thesis by blast
qed

text \<open>
  C1. A call for a \<open>(file_id, user_id)\<close> pair that already has a stored point ends at the
  duplicate check: the collection and the identifier supply are left as they were, and
  the call either returns with the already-processed warning logged or, when the
  scroll itself fails, raises that store error. Hence after an ingestion that stored
  points, a second call for the same pair, whatever its other arguments, its
  collaborators and the faults of the store, leaves the collection unchanged.
\<close>

theorem duplicate_ingestion_writes_nothing:
  "(coll w = Some c \<and> (\<exists>p\<in>set (points c). matches (duplicate_filter d) p) \<longrightarrow>
      coll (snd (process_document env d w)) = coll w \<and>
      uuid_count (snd (process_document env d w)) = uuid_count w \<and>
      (case faults w of
         Some (m, s) # fs \<Rightarrow> fst (process_document env d w) = Inl (StoreError m s)
       | _ \<Rightarrow> fst (process_document env d w) = Inr PyNone \<and>
             outcome_of w (snd (process_document env d w)) = Some SkippedDuplicate))
   \<and> (process_document env1 d1 w0 = (r, w1) \<and> outcome_of w0 w1 = Some (Ingested n) \<and>
      file_id d2 = file_id d1 \<and> user_id d2 = user_id d1 \<longrightarrow>
        coll (snd (process_document env2 d2 (w1\<lparr>faults := fs2\<rparr>))) = coll w1 \<and>
        (case fs2 of
           Some (m, s) # fs \<Rightarrow>
             fst (process_document env2 d2 (w1\<lparr>faults := fs2\<rparr>)) = Inl (StoreError m s)
         | _ \<Rightarrow> fst (process_document env2 d2 (w1\<lparr>faults := fs2\<rparr>)) = Inr PyNone \<and>
               outcome_of (w1\<lparr>faults := fs2\<rparr>)
                 (snd (process_document env2 d2 (w1\<lparr>faults := fs2\<rparr>))) = Some SkippedDuplicate))"
proof -
  have general: "coll (snd (process_document env' d' w')) = coll w' \<and>
      uuid_count (snd (process_document env' d' w')) = uuid_count w' \<and>
      (case faults w' of
         Some (m, s) # fs \<Rightarrow> fst (process_document env' d' w') = Inl (StoreError m s)
       | _ \<Rightarrow> fst (process_document env' d' w') = Inr PyNone \<and>
             outcome_of w' (snd (process_document env' d' w')) = Some SkippedDuplicate)"
    if "coll w' = Some c'" "\<exists>p\<in>set (points c'). matches (duplicate_filter d') p"
    for env' d' w' c'
    using duplicate_call[OF that, of env']
    by (auto simp: outcome_of_suffix List.map_filter_simps split: list.splits option.splits)
  have twice: "coll (snd (process_document env2 d2 (w1\<lparr>faults := fs2\<rparr>))) = coll w1 \<and>
        (case fs2 of
           Some (m, s) # fs \<Rightarrow>
             fst (process_document env2 d2 (w1\<lparr>faults := fs2\<rparr>)) = Inl (StoreError m s)
         | _ \<Rightarrow> fst (process_document env2 d2 (w1\<lparr>faults := fs2\<rparr>)) = Inr PyNone \<and>
               outcome_of (w1\<lparr>faults := fs2\<rparr>)
                 (snd (process_document env2 d2 (w1\<lparr>faults := fs2\<rparr>))) = Some SkippedDuplicate)"
    if run: "process_document env1 d1 w0 = (r, w1)" and out: "outcome_of w0 w1 = Some (Ingested n)"
      and same: "file_id d2 = file_id d1" "user_id d2 = user_id d1"
  proof -
    from run obtain c1 where c1: "coll w1 = Some c1"
      "\<exists>p\<in>set (points c1). matches (duplicate_filter d2) p"
    proof (cases rule: process_document_cases)
      case (failed e)
      with out show ?thesis by simp
    next
      case (duplicate c)
      with out show ?thesis by (simp add: outcome_of_suffix List.map_filter_simps)
    next
      case no_text
      with out show ?thesis by (simp add: outcome_of_suffix List.map_filter_simps)
    next
      case zero_chunks
      with out show ?thesis by (simp add: outcome_of_suffix List.map_filter_simps)
    next
      case (stored c text_content chunks batch)
      from stored_batch_matches[OF stored(6) stored(5) same, of "points c"] stored(7)
      show ?thesis by (intro that[of "c\<lparr>points := upsert_points (points c) batch\<rparr>"]) simp_all
    qed
    from general[of "w1\<lparr>faults := fs2\<rparr>" c1 d2 env2] c1 show ?thesis by simp
  qed
  from general[of w c d env] twice show ?thesis by blast
qed


lemma demo_first_run:
  "process_document demo_env demo_doc demo_world = (Inr PyNone, demo_stored)"
  by (simp add: demo_eval demo_stored_def)

theorem duplicate_ingestion_writes_nothing_witness:
  "process_document demo_env demo_doc demo_world = (Inr PyNone, demo_stored) \<and>
   outcome_of demo_world demo_stored = Some (Ingested 2) \<and>
   (\<exists>c. coll demo_stored = Some c \<and> (\<exists>p\<in>set (points c). matches (duplicate_filter demo_doc) p)) \<and>
   process_document demo_env demo_doc demo_stored =
     (Inr PyNone, logging IngestionEnd (logging (AlreadyProcessed ''f1'' ''u1'')
                    (logging (IngestionStart ''f1'') demo_stored))) \<and>
   coll (snd (process_document demo_env demo_doc (demo_stored\<lparr>faults := [Some (''timeout'', None)]\<rparr>)))
     = coll demo_stored \<and>
   fst (process_document demo_env demo_doc (demo_stored\<lparr>faults := [Some (''timeout'', None)]\<rparr>))
     = Inl (StoreError ''timeout'' None)"
proof -
  let ?c = "\<lparr>vsize = 1024, metric = Cosine, indexes = [''user_id'', ''file_id''],
             points = [\<lparr>pid = ''u'', vec = [0], payload = point_payload demo_doc 0 ''alpha''\<rparr>,
                       \<lparr>pid = ''uu'', vec = [0], payload = point_payload demo_doc 1 ''beta''\<rparr>]\<rparr>"
  have h1: "coll demo_stored = Some ?c \<and> (\<exists>p\<in>set (points ?c). matches (duplicate_filter demo_doc) p)"
    by (simp add: demo_stored_def duplicate_filter_def matches_def point_payload_def demo_doc_def)
  have h2: "process_document demo_env demo_doc demo_world = (Inr PyNone, demo_stored) \<and>
            outcome_of demo_world demo_stored = Some (Ingested 2) \<and>
            file_id demo_doc = file_id demo_doc \<and> user_id demo_doc = user_id demo_doc"
    by (simp add: demo_first_run) (simp add: demo_stored_def demo_world_def outcome_of_def List.map_filter_simps)
  have run2: "process_document demo_env demo_doc demo_stored =
     (Inr PyNone, logging IngestionEnd (logging (AlreadyProcessed ''f1'' ''u1'')
                    (logging (IngestionStart ''f1'') demo_stored)))"
    by (simp add: demo_eval demo_stored_def)
  from duplicate_ingestion_writes_nothing[where w = demo_stored and c = ?c and d = demo_doc
      and env = demo_env and ?env1.0 = demo_env and ?d1.0 = demo_doc and ?w0.0 = demo_world
      and r = "Inr PyNone" and ?w1.0 = demo_stored and n = 2 and ?d2.0 = demo_doc
      and ?env2.0 = demo_env and ?fs2.0 = "[Some (''timeout'', None)]"] h1 h2
  have "coll (snd (process_document demo_env demo_doc (demo_stored\<lparr>faults := [Some (''timeout'', None)]\<rparr>)))
     = coll demo_stored \<and>
   fst (process_document demo_env demo_doc (demo_stored\<lparr>faults := [Some (''timeout'', None)]\<rparr>))
     = Inl (StoreError ''timeout'' None)"
    by simp
  with h1 h2 run2 show ?thesis by blast
qed










text \<open>
  C3 fails on the code: \<open>process_document\<close> returns \<open>None\<close> on each of its three normal
  ends. Here a first ingestion (two chunks stored), a repetition of it (skipped as a
  duplicate) and an ingestion of a file without text (skipped as empty) return the same
  value.
\<close>

theorem ingest_outcomes_distinguishable_counterexample:
  "fst (process_document demo_env demo_doc demo_world) = Inr PyNone \<and>
   outcome_of demo_world (snd (process_document demo_env demo_doc demo_world))
     = Some (Ingested 2) \<and>
   fst (process_document demo_env demo_doc demo_stored) = Inr PyNone \<and>
   outcome_of demo_stored (snd (process_document demo_env demo_doc demo_stored))
     = Some SkippedDuplicate \<and>
   fst (process_document demo_empty_pdf demo_doc demo_world)
     = Inr PyNone \<and>
   outcome_of demo_world
     (snd (process_document demo_empty_pdf demo_doc demo_world))
     = Some SkippedEmpty"
  by (simp add: demo_eval demo_stored_def)

text \<open>
  C3 as amended. Every normal end of \<open>process_document\<close> returns \<open>None\<close>; which of the
  three outcomes occurred is told by the one line the call logs between its start and
  end lines, not by the returned value. On the two skip outcomes the collection is
  unchanged, and a stored-chunks line carries a positive count.
\<close>

theorem ingest_returns_none_logs_outcome:
  assumes "process_document env d w = (Inr v, w')"
  shows "v = PyNone \<and>
         (\<exists>out. outcome_of w w' = Some out \<and>
                (case out of Ingested n \<Rightarrow> 0 < n | _ \<Rightarrow> coll w' = coll w))"
  using assms
proof (cases rule: process_document_cases)
  case (failed e)
  then show ?thesis by simp
next
  case (duplicate c)
  then show ?thesis by (simp add: outcome_of_suffix List.map_filter_simps)
next
  case no_text
  then show ?thesis by (simp add: outcome_of_suffix List.map_filter_simps)
next
  case zero_chunks
  then show ?thesis by (simp add: outcome_of_suffix List.map_filter_simps)
next
  case (stored c text_content chunks batch)
  then show ?thesis by (simp add: outcome_of_suffix List.map_filter_simps)
qed

theorem ingest_returns_none_logs_outcome_witness:
  "process_document demo_env demo_doc demo_world = (Inr PyNone, demo_stored) \<and>
   outcome_of demo_world demo_stored = Some (Ingested 2) \<and> (0::nat) < 2"
proof -
  have h: "process_document demo_env demo_doc demo_world = (Inr PyNone, demo_stored)"
    by (rule demo_first_run)
  have "outcome_of demo_world demo_stored = Some (Ingested 2)"
    by (simp add: demo_stored_def demo_world_def outcome_of_def List.map_filter_simps)
  with ingest_returns_none_logs_outcome[OF h] h show ?thesis by simp
qed

section \<open>Properties of the collection check\<close>

lemma get_collection_effect:
  assumes "get_collection w = (r, w')"
  shows "coll w' = coll w" and "logged w' = logged w"
    and "r = Inr info \<Longrightarrow> coll w = Some info"
  using assms
  by (auto simp: get_collection_def split: prod.splits sum.splits option.splits
      dest!: store_call_keeps)

lemma delete_collection_effect:
  assumes "delete_collection w = (r, w')"
  shows "logged w' = logged w" and "r = Inr u \<Longrightarrow> coll w' = None"
  using assms
  by (auto simp: delete_collection_def split: prod.splits sum.splits dest!: store_call_keeps)

lemma recreate_collection_effect:
  "recreate_collection n d w = (r, w') \<Longrightarrow> logged w' = logged w"
  by (auto simp: recreate_collection_def split: prod.splits sum.splits dest!: store_call_keeps)

lemma create_payload_index_effect:
  "create_payload_index field w = (r, w') \<Longrightarrow> logged w' = logged w"
  by (auto simp: create_payload_index_def split: prod.splits sum.splits option.splits
      dest!: store_call_keeps)

lemma probe_collection_effect:
  assumes "probe_collection w = (r, w')"
  shows "coll w' = coll w"
    and "\<exists>evs. logged w' = logged w @ evs \<and> filter is_mismatch evs = []"
    and "r = Inr True \<Longrightarrow> coll w \<noteq> None"
proof -
  obtain r0 w0 where g: "get_collection w = (r0, w0)" by (cases "get_collection w")
  note e = get_collection_effect[OF g]
  from assms g e(1,2) show "coll w' = coll w"
    by (cases r0) (auto simp: probe_collection_def split: if_splits)
  from assms g e(1,2) show "\<exists>evs. logged w' = logged w @ evs \<and> filter is_mismatch evs = []"
    by (cases r0) (auto simp: probe_collection_def split: if_splits)
  show "coll w \<noteq> None" if "r = Inr True"
  proof (cases r0)
    case (Inl err)
    with assms g that show ?thesis by (auto simp: probe_collection_def split: if_splits)
  next
    case (Inr info)
    with e(3) show ?thesis by simp
  qed
qed

lemma create_new_collection_quiet:
  "\<exists>evs. logged (snd (create_new_collection w)) = logged w @ evs \<and> filter is_mismatch evs = []"
proof -
  obtain r1 w1 where s1: "recreate_collection EMBEDDING_DIM Cosine (logging CreatingCollection w) = (r1, w1)"
    by (cases "recreate_collection EMBEDDING_DIM Cosine (logging CreatingCollection w)")
  obtain r2 w2 where s2: "create_payload_index ''user_id'' (logging CreatingIndexes w1) = (r2, w2)"
    by (cases "create_payload_index ''user_id'' (logging CreatingIndexes w1)")
  obtain r3 w3 where s3: "create_payload_index ''file_id'' w2 = (r3, w3)"
    by (cases "create_payload_index ''file_id'' w2")
  from recreate_collection_effect[OF s1] create_payload_index_effect[OF s2]
    create_payload_index_effect[OF s3]
  have l: "logged w1 = logged w @ [CreatingCollection]"
    "logged w2 = logged w @ [CreatingCollection, CreatingIndexes]"
    "logged w3 = logged w @ [CreatingCollection, CreatingIndexes]"
    by simp_all
  show ?thesis
    using s1 s2 s3 l
    by (cases r1; cases r2; cases r3) (simp_all add: create_new_collection_def)
qed

lemma ensure_payload_indexes_quiet:
  "\<exists>evs. logged (snd (ensure_payload_indexes w)) = logged w @ evs \<and> filter is_mismatch evs = []"
proof -
  obtain r2 w2 where s2: "create_payload_index ''user_id'' (logging EnsuringIndexes w) = (r2, w2)"
    by (cases "create_payload_index ''user_id'' (logging EnsuringIndexes w)")
  obtain r3 w3 where s3: "create_payload_index ''file_id'' w2 = (r3, w3)"
    by (cases "create_payload_index ''file_id'' w2")
  from create_payload_index_effect[OF s2] create_payload_index_effect[OF s3]
  have l: "logged w2 = logged w @ [EnsuringIndexes]" "logged w3 = logged w @ [EnsuringIndexes]"
    by simp_all
  show ?thesis
    using s2 s3 l
    by (cases r2; cases r3) (simp_all add: ensure_payload_indexes_def)
qed

lemma handler_quiet:
  assumes "\<exists>evs. logged (snd p) = logged w @ evs \<and> filter is_mismatch evs = []"
  shows "\<exists>evs. logged (snd (case p of (Inl e, w') \<Rightarrow> (Inl e, logging (InitFailed e) w')
                                   | (Inr u, w') \<Rightarrow> (Inr (u::unit), w')))
           = logged w @ evs \<and> filter is_mismatch evs = []"
proof -
  obtain r w' where p: "p = (r, w')" by (cases p)
  with assms show ?thesis by (cases r) auto
qed

lemma absent_collection_quiet:
  assumes "coll w = None"
  shows "\<exists>evs. logged (snd (get_or_create_collection w)) = logged w @ evs
               \<and> filter is_mismatch evs = []"
proof -
  obtain r1 w1 where p: "probe_collection w = (r1, w1)" by (cases "probe_collection w")
  note pe = probe_collection_effect[OF p]
  from pe(2) obtain evs1 where l1: "logged w1 = logged w @ evs1" "filter is_mismatch evs1 = []"
    by blast
  let ?body = "case r1 of Inl e \<Rightarrow> (Inl e, w1)
               | Inr collection_exists \<Rightarrow> create_new_collection w1"
  have body: "\<exists>evs. logged (snd ?body) = logged w @ evs \<and> filter is_mismatch evs = []"
  proof (cases r1)
    case (Inl e)
    with l1 show ?thesis by simp
  next
    case (Inr ex)
    from create_new_collection_quiet[of w1] l1 Inr show ?thesis by auto
  qed
  have "r1 \<noteq> Inr True" using pe(3) assms by auto
  then have "get_or_create_collection w =
      (case ?body of (Inl e, w') \<Rightarrow> (Inl e, logging (InitFailed e) w')
                   | (Inr u, w') \<Rightarrow> (Inr u, w'))"
    using p by (cases r1) (auto simp: get_or_create_collection.simps[of w])
  with handler_quiet[OF body] show ?thesis by simp
qed

lemma handler_appends:
  assumes "logged (snd p) = logged w @ evs"
  shows "\<exists>evs'. logged (snd (case p of (Inl e, w') \<Rightarrow> (Inl e, logging (InitFailed e) w')
                                   | (Inr u, w') \<Rightarrow> (Inr (u::unit), w')))
           = logged w @ evs' \<and> filter is_mismatch evs' = filter is_mismatch evs"
proof -
  obtain r w' where p: "p = (r, w')" by (cases p)
  with assms show ?thesis by (cases r) auto
qed

lemma retry_bound_log:
  "\<exists>evs. logged (snd (get_or_create_collection w)) = logged w @ evs
         \<and> length (filter is_mismatch evs) \<le> 1"
proof -
  obtain r1 w1 where p: "probe_collection w = (r1, w1)" by (cases "probe_collection w")
  note pe = probe_collection_effect[OF p]
  from pe(2) obtain evs1 where l1: "logged w1 = logged w @ evs1" "filter is_mismatch evs1 = []"
    by blast
  let ?handler = "\<lambda>p. case p of (Inl e, w') \<Rightarrow> (Inl e, logging (InitFailed e) w')
                               | (Inr u, w') \<Rightarrow> (Inr (u::unit), w')"
  have "\<exists>body evs. get_or_create_collection w = ?handler body \<and>
          logged (snd body) = logged w @ evs \<and> length (filter is_mismatch evs) \<le> 1"
  proof (cases r1)
    case (Inl e)
    with p have "get_or_create_collection w = ?handler (Inl e, w1)"
      by (simp add: get_or_create_collection.simps[of w])
    with l1 show ?thesis by (intro exI[of _ "(Inl e, w1)"] exI[of _ evs1]) simp
  next
    case (Inr collection_exists)
    show ?thesis
    proof (cases collection_exists)
      case False
      with p Inr have "get_or_create_collection w = ?handler (create_new_collection w1)"
        by (simp add: get_or_create_collection.simps[of w])
      moreover from create_new_collection_quiet[of w1] l1
      obtain evs where "logged (snd (create_new_collection w1)) = logged w @ evs"
        "filter is_mismatch evs = []" by auto
      ultimately show ?thesis
        by (intro exI[of _ "create_new_collection w1"] exI[of _ evs]) simp
    next
      case True
      obtain r2 w2 where g: "get_collection (logging VerifyingCollection w1) = (r2, w2)"
        by (cases "get_collection (logging VerifyingCollection w1)")
      from get_collection_effect(2)[OF g] l1
      have l2: "logged w2 = logged w @ (evs1 @ [VerifyingCollection])" by simp
      show ?thesis
      proof (cases r2)
        case (Inl e)
        with p Inr True g have "get_or_create_collection w = ?handler (Inl e, w2)"
          by (simp add: get_or_create_collection.simps[of w])
        with l2 l1(2) show ?thesis
          by (intro exI[of _ "(Inl e, w2)"] exI[of _ "evs1 @ [VerifyingCollection]"]) simp
      next
        case info: (Inr collection_info)
        show ?thesis
        proof (cases "vsize collection_info \<noteq> EMBEDDING_DIM")
          case False
          with p Inr True g info
          have "get_or_create_collection w = ?handler (ensure_payload_indexes w2)"
            by (simp add: get_or_create_collection.simps[of w])
          moreover from ensure_payload_indexes_quiet[of w2] l2 l1(2)
          obtain evs where "logged (snd (ensure_payload_indexes w2)) = logged w @ evs"
            "filter is_mismatch evs = []" by auto
          ultimately show ?thesis
            by (intro exI[of _ "ensure_payload_indexes w2"] exI[of _ evs]) simp
        next
          case mismatch: True
          let ?w2 = "logging (DimensionMismatch EMBEDDING_DIM (vsize collection_info)) w2"
          obtain r3 w3 where d: "delete_collection ?w2 = (r3, w3)"
            by (cases "delete_collection ?w2")
          from delete_collection_effect(1)[OF d] l2
          have l3: "logged w3 = logged w @ (evs1 @ [VerifyingCollection,
                      DimensionMismatch EMBEDDING_DIM (vsize collection_info)])" by simp
          show ?thesis
          proof (cases r3)
            case (Inl e)
            with p Inr True g info mismatch d
            have "get_or_create_collection w = ?handler (Inl e, w3)"
              by (simp add: get_or_create_collection.simps[of w])
            with l3 l1(2) show ?thesis
              by (intro exI[of _ "(Inl e, w3)"] exI[of _ "evs1 @ [VerifyingCollection,
                      DimensionMismatch EMBEDDING_DIM (vsize collection_info)]"]) simp
          next
            case del: (Inr u)
            with p Inr True g info mismatch d
            have "get_or_create_collection w = ?handler (get_or_create_collection w3)"
              by (simp add: get_or_create_collection.simps[of w])
            moreover from delete_collection_effect(2)[OF d del] have "coll w3 = None" .
            from absent_collection_quiet[OF this] l3 l1(2)
            obtain evs where "logged (snd (get_or_create_collection w3)) = logged w @ evs"
              "length (filter is_mismatch evs) \<le> 1" by auto
            ultimately show ?thesis
              by (intro exI[of _ "get_or_create_collection w3"] exI[of _ evs]) simp
          qed
        qed
      qed
    qed
  qed
  then obtain body evs where b: "get_or_create_collection w = ?handler body"
    "logged (snd body) = logged w @ evs" "length (filter is_mismatch evs) \<le> 1"
    by blast
  from handler_appends[OF b(2)] b(1,3) show ?thesis by auto
qed

lemma retry_bound: "mismatch_count w (snd (get_or_create_collection w)) \<le> 1"
  using retry_bound_log[of w] by (auto simp: mismatch_count_def)

lemma store_call_calm:
  assumes "\<forall>f\<in>set (take (Suc n) (faults w)). f = None"
  shows "store_call w = (Inr (), w\<lparr>faults := drop 1 (faults w)\<rparr>)"
    and "\<forall>f\<in>set (take n (drop 1 (faults w))). f = None"
proof -
  show "store_call w = (Inr (), w\<lparr>faults := drop 1 (faults w)\<rparr>)"
  proof (cases "faults w")
    case Nil
    then show ?thesis by (simp add: store_call_def)
  next
    case (Cons f fs)
    with assms have "f = None" by simp
    with Cons show ?thesis by (simp add: store_call_def)
  qed
  show "\<forall>f\<in>set (take n (drop 1 (faults w))). f = None"
  proof (cases "faults w")
    case Nil
    then show ?thesis by simp
  next
    case (Cons f fs)
    with assms show ?thesis by simp
  qed
qed

lemma looks_not_found_404: "looks_not_found not_found"
  by (simp add: looks_not_found_def not_found_def)

text \<open>
  C5. On a collection whose vector size is not \<open>EMBEDDING_DIM\<close> (1024), a run of the check
  logs the dimension-mismatch warning at most once, whatever the store's faults: the
  function calls itself at most once. When the next seven store calls go through, the
  run deletes the collection, the one inner call finds no collection and creates it
  anew with size 1024, cosine distance, the two payload indexes and no points, and the
  run returns normally after exactly those seven calls.
\<close>

theorem mismatch_recreates_once:
  assumes "coll w = Some c" and "vsize c \<noteq> EMBEDDING_DIM"
  shows "mismatch_count w (snd (get_or_create_collection w)) \<le> 1 \<and>
         ((\<forall>f\<in>set (take 7 (faults w)). f = None) \<longrightarrow>
            get_or_create_collection w =
              (Inr (),
               w\<lparr>coll := Some \<lparr>vsize = EMBEDDING_DIM, metric = Cosine,
                                indexes = [''user_id'', ''file_id''], points = []\<rparr>,
                 faults := drop 7 (faults w),
                 logged := logged w @
                   [VerifyingCollection, DimensionMismatch EMBEDDING_DIM (vsize c),
                    CollectionNotFound, CreatingCollection, CreatingIndexes,
                    CollectionCreated]\<rparr>))"
proof -
  have run: "get_or_create_collection w =
              (Inr (),
               w\<lparr>coll := Some \<lparr>vsize = EMBEDDING_DIM, metric = Cosine,
                                indexes = [''user_id'', ''file_id''], points = []\<rparr>,
                 faults := drop 7 (faults w),
                 logged := logged w @
                   [VerifyingCollection, DimensionMismatch EMBEDDING_DIM (vsize c),
                    CollectionNotFound, CreatingCollection, CreatingIndexes,
                    CollectionCreated]\<rparr>)"
    if calm: "\<forall>f\<in>set (take 7 (faults w)). f = None"
  proof -
    let ?fs = "faults w"
    have c7: "\<forall>f\<in>set (take (Suc 6) (faults w)). f = None" using calm by simp
    \<comment> \<open>first call: the collection exists\<close>
    let ?w1 = "w\<lparr>faults := drop 1 ?fs\<rparr>"
    have g1: "get_collection w = (Inr c, ?w1)"
      using store_call_calm(1)[OF c7] assms(1) by (simp add: get_collection_def)
    have c6: "\<forall>f\<in>set (take (Suc 5) (faults ?w1)). f = None"
      using store_call_calm(2)[OF c7] by simp
    have p1: "probe_collection w = (Inr True, ?w1)"
      using g1 by (simp add: probe_collection_def)
    \<comment> \<open>second call: its vector size\<close>
    let ?v1 = "logging VerifyingCollection ?w1"
    let ?w2 = "?v1\<lparr>faults := drop 1 (faults ?v1)\<rparr>"
    have c6': "\<forall>f\<in>set (take (Suc 5) (faults ?v1)). f = None" using c6 by simp
    have g2: "get_collection ?v1 = (Inr c, ?w2)"
      using store_call_calm(1)[OF c6'] assms(1) by (simp add: get_collection_def)
    have c5: "\<forall>f\<in>set (take (Suc 4) (faults ?w2)). f = None"
      using store_call_calm(2)[OF c6'] by simp
    \<comment> \<open>third call: the collection is deleted\<close>
    let ?v2 = "logging (DimensionMismatch EMBEDDING_DIM (vsize c)) ?w2"
    let ?w3 = "?v2\<lparr>faults := drop 1 (faults ?v2), coll := None\<rparr>"
    have c5': "\<forall>f\<in>set (take (Suc 4) (faults ?v2)). f = None" using c5 by simp
    have d3: "delete_collection ?v2 = (Inr (), ?w3)"
      using store_call_calm(1)[OF c5'] by (simp add: delete_collection_def)
    have c4: "\<forall>f\<in>set (take (Suc 3) (faults ?w3)). f = None"
      using store_call_calm(2)[OF c5'] by simp
    have outer: "get_or_create_collection w =
        (case get_or_create_collection ?w3 of
           (Inl e, w') \<Rightarrow> (Inl e, logging (InitFailed e) w')
         | (Inr u, w') \<Rightarrow> (Inr u, w'))"
      using assms(2)
      by (simp only: get_or_create_collection.simps[of w] p1 g2 d3 prod.case sum.case
          simp_thms if_True if_False)
    \<comment> \<open>the inner call: fourth call, the collection is not found\<close>
    let ?w4 = "?w3\<lparr>faults := drop 1 (faults ?w3)\<rparr>"
    have g4: "get_collection ?w3 = (Inl not_found, ?w4)"
      using store_call_calm(1)[OF c4] by (simp add: get_collection_def)
    have c3: "\<forall>f\<in>set (take (Suc 2) (faults ?w4)). f = None"
      using store_call_calm(2)[OF c4] by simp
    let ?v4 = "logging CollectionNotFound ?w4"
    have p4: "probe_collection ?w3 = (Inr False, ?v4)"
      using g4 looks_not_found_404 by (simp add: probe_collection_def)
    \<comment> \<open>fifth to seventh call: the collection and its indexes are created\<close>
    let ?v5 = "logging CreatingCollection ?v4"
    let ?fresh = "\<lparr>vsize = EMBEDDING_DIM, metric = Cosine, indexes = [], points = []\<rparr>"
    let ?w5 = "?v5\<lparr>faults := drop 1 (faults ?v5), coll := Some ?fresh\<rparr>"
    have c3': "\<forall>f\<in>set (take (Suc 2) (faults ?v5)). f = None" using c3 by simp
    have r5: "recreate_collection EMBEDDING_DIM Cosine ?v5 = (Inr (), ?w5)"
      using store_call_calm(1)[OF c3'] by (simp add: recreate_collection_def)
    have c2: "\<forall>f\<in>set (take (Suc 1) (faults ?w5)). f = None"
      using store_call_calm(2)[OF c3'] by (simp add: numeral_2_eq_2)
    let ?v6 = "logging CreatingIndexes ?w5"
    let ?w6 = "?v6\<lparr>faults := drop 1 (faults ?v6),
                   coll := Some (?fresh\<lparr>indexes := [''user_id'']\<rparr>)\<rparr>"
    have c2': "\<forall>f\<in>set (take (Suc 1) (faults ?v6)). f = None"
      using c2 by (simp add: numeral_2_eq_2)
    have i6: "create_payload_index ''user_id'' ?v6 = (Inr (), ?w6)"
      using store_call_calm(1)[OF c2'] by (simp add: create_payload_index_def)
    have c1: "\<forall>f\<in>set (take (Suc 0) (faults ?w6)). f = None"
      using store_call_calm(2)[OF c2'] by simp
    let ?w7 = "?w6\<lparr>faults := drop 1 (faults ?w6),
                   coll := Some (?fresh\<lparr>indexes := [''user_id'', ''file_id'']\<rparr>)\<rparr>"
    have i7: "create_payload_index ''file_id'' ?w6 = (Inr (), ?w7)"
      using store_call_calm(1)[OF c1] by (simp add: create_payload_index_def)
    have created: "create_new_collection ?v4 = (Inr (), logging CollectionCreated ?w7)"
      using r5 i6 i7 by (simp add: create_new_collection_def)
    have inner: "get_or_create_collection ?w3 = (Inr (), logging CollectionCreated ?w7)"
      by (simp only: get_or_create_collection.simps[of ?w3] p4 created prod.case sum.case
          simp_thms if_True if_False)
    have seven: "Suc (Suc (Suc (Suc (Suc (Suc (Suc 0)))))) = 7"
      by simp
    from outer inner show ?thesis
      by (simp add: logging_def seven)
  qed
  from retry_bound[of w] run show ?thesis by blast
qed

section \<open>Properties of retrieval\<close>

lemma store_call_same:
  assumes "coll w = coll v" and "faults w = faults v"
  shows "fst (store_call w) = fst (store_call v)"
    and "coll (snd (store_call w)) = coll (snd (store_call v))"
    and "faults (snd (store_call w)) = faults (snd (store_call v))"
  using assms by (auto simp: store_call_def split: list.splits option.splits)

lemma qdrant_search_same:
  assumes "coll w = coll v" and "faults w = faults v"
  shows "fst (qdrant_search env qv flt k w) = fst (qdrant_search env qv flt k v)"
    and "coll (snd (qdrant_search env qv flt k w)) = coll (snd (qdrant_search env qv flt k v))"
    and "faults (snd (qdrant_search env qv flt k w)) = faults (snd (qdrant_search env qv flt k v))"
  using store_call_same[OF assms]
  by (auto simp: qdrant_search_def split: prod.splits sum.splits option.splits)

lemma qdrant_scroll_same:
  assumes "coll w = coll v" and "faults w = faults v"
  shows "fst (qdrant_scroll env flt k w) = fst (qdrant_scroll env flt k v)"
  using store_call_same[OF assms]
  by (auto simp: qdrant_scroll_def split: prod.splits sum.splits option.splits)

lemma fan_out_same:
  "coll w = coll v \<Longrightarrow> faults w = faults v \<Longrightarrow>
     fst (fan_out env flt eqs acc w) = fst (fan_out env flt eqs acc v)"
proof (induction eqs arbitrary: acc w v)
  case Nil
  then show ?case by simp
next
  case (Cons eq eqs)
  show ?case
  proof (cases "embed_query env eq")
    case (Inl e)
    then show ?thesis by simp
  next
    case (Inr qv)
    obtain r1 w1 where s1: "qdrant_search env qv flt TOP_K_RESULTS w = (r1, w1)"
      by (cases "qdrant_search env qv flt TOP_K_RESULTS w")
    obtain r2 v1 where s2: "qdrant_search env qv flt TOP_K_RESULTS v = (r2, v1)"
      by (cases "qdrant_search env qv flt TOP_K_RESULTS v")
    from qdrant_search_same[OF Cons.prems, of env qv flt TOP_K_RESULTS] s1 s2
    have same: "r1 = r2" "coll w1 = coll v1" "faults w1 = faults v1" by simp_all
    show ?thesis
    proof (cases r1)
      case (Inl e)
      with same(1) have "r2 = Inl e" by simp
      with Inl Inr s1 s2 show ?thesis by simp
    next
      case r1: (Inr res)
      with same(1) have "r2 = Inr res" by simp
      with r1 Inr s1 s2 Cons.IH[OF same(2,3)] show ?thesis by simp
    qed
  qed
qed

lemma get_expanded_queries_fst:
  "fst (get_expanded_queries env query w) = fst (get_expanded_queries env query v)"
  by (simp add: get_expanded_queries_def split: option.splits sum.splits)

lemma get_expanded_queries_keeps:
  "coll (snd (get_expanded_queries env query w)) = coll w"
  "faults (snd (get_expanded_queries env query w)) = faults w"
  by (simp_all add: get_expanded_queries_def split: option.splits sum.splits)

lemma collect_hits_same:
  assumes "coll w = coll v" and "faults w = faults v"
  shows "fst (collect_hits env query uid fids w) = fst (collect_hits env query uid fids v)"
proof -
  obtain x w1 where g1: "get_expanded_queries env query w = (x, w1)"
    by (cases "get_expanded_queries env query w")
  obtain y v1 where g2: "get_expanded_queries env query v = (y, v1)"
    by (cases "get_expanded_queries env query v")
  from get_expanded_queries_fst[of env query w v] g1 g2 have xy: "x = y" by simp
  from get_expanded_queries_keeps[of env query w] get_expanded_queries_keeps[of env query v]
    g1 g2 assms
  have same: "coll w1 = coll v1" "faults w1 = faults v1" by simp_all
  show ?thesis
    using g1 g2 xy fan_out_same[OF same]
    by (simp add: collect_hits_def split: sum.splits)
qed

lemma search_try_same:
  assumes "coll w = coll v" and "faults w = faults v"
  shows "fst (search_try env query uid fids w) = fst (search_try env query uid fids v)"
proof (cases "is_summary_request query")
  case True
  obtain r1 w1 where s1: "qdrant_scroll env (query_filter uid fids) SUMMARY_CHUNK_LIMIT w = (r1, w1)"
    by (cases "qdrant_scroll env (query_filter uid fids) SUMMARY_CHUNK_LIMIT w")
  obtain r2 v1 where s2: "qdrant_scroll env (query_filter uid fids) SUMMARY_CHUNK_LIMIT v = (r2, v1)"
    by (cases "qdrant_scroll env (query_filter uid fids) SUMMARY_CHUNK_LIMIT v")
  from qdrant_scroll_same[OF assms, of env "query_filter uid fids" SUMMARY_CHUNK_LIMIT] s1 s2
  have "r2 = r1" by simp
  with True s1 s2 show ?thesis
    by (cases r1) (simp_all add: search_try_def split: sum.splits)
next
  case False
  obtain r1 w1 where s1: "collect_hits env query uid fids w = (r1, w1)"
    by (cases "collect_hits env query uid fids w")
  obtain r2 v1 where s2: "collect_hits env query uid fids v = (r2, v1)"
    by (cases "collect_hits env query uid fids v")
  from collect_hits_same[OF assms, of env query uid fids] s1 s2
  have "r2 = r1" by simp
  with False s1 s2 show ?thesis
    by (cases r1) (simp_all add: search_try_def Let_def)
qed

lemma search_fst:
  assumes ne: "fids \<noteq> []"
  shows "fst (search env query uid fids w) =
     (case fst (search_try env query uid fids w) of Inl e \<Rightarrow> Inr [] | Inr ps \<Rightarrow> Inr ps)"
proof -
  let ?w0 = "logging (QueryInfo query (is_summary_request query)) (logging ContextSearch w)"
  obtain r w1 where s: "search_try env query uid fids ?w0 = (r, w1)"
    by (cases "search_try env query uid fids ?w0")
  have "fst (search_try env query uid fids ?w0) = fst (search_try env query uid fids w)"
    by (rule search_try_same) simp_all
  with s have "fst (search_try env query uid fids w) = r" by simp
  with s ne show ?thesis
    by (cases r) (simp_all add: search_def)
qed

lemma dedup_hits_kept:
  "dedup_hits acc hits =
     acc @ map (\<lambda>h. (chunk_key h, chunk_entry h)) (kept_hits (map fst acc) hits)"
proof (induction hits arbitrary: acc)
  case Nil
  then show ?case by simp
next
  case (Cons hit hits)
  show ?case
  proof (cases "valid_hit hit \<and> chunk_key hit \<notin> fst ` set acc")
    case True
    then have "dedup_hits acc (hit # hits) =
        dedup_hits (acc @ [(chunk_key hit, chunk_entry hit)]) hits"
      by (simp add: valid_hit_def)
    with True Cons.IH[of "acc @ [(chunk_key hit, chunk_entry hit)]"] show ?thesis
      by simp
  next
    case False
    then have "dedup_hits acc (hit # hits) = dedup_hits acc hits"
      by (auto simp: valid_hit_def)
    with False Cons.IH[of acc] show ?thesis by auto
  qed
qed

lemma kept_hits_keys:
  "distinct (map chunk_key (kept_hits seen hits)) \<and>
   chunk_key ` set (kept_hits seen hits) \<inter> set seen = {}"
proof (induction hits arbitrary: seen)
  case Nil
  then show ?case by simp
next
  case (Cons hit hits)
  from Cons.IH[of seen] Cons.IH[of "seen @ [chunk_key hit]"] show ?case
    by auto
qed

lemma kept_hits_not_seen:
  "h \<in> set (kept_hits seen hits) \<Longrightarrow> chunk_key h \<notin> set seen"
proof (induction hits arbitrary: seen)
  case Nil
  then show ?case by simp
next
  case (Cons hit hits)
  show ?case
  proof (cases "valid_hit hit \<and> chunk_key hit \<notin> set seen")
    case True
    with Cons.prems have "h = hit \<or> h \<in> set (kept_hits (seen @ [chunk_key hit]) hits)"
      by simp
    then show ?thesis
    proof
      assume "h = hit"
      with True show ?thesis by simp
    next
      assume "h \<in> set (kept_hits (seen @ [chunk_key hit]) hits)"
      from Cons.IH[OF this] show ?thesis by simp
    qed
  next
    case False
    with Cons.prems have "h \<in> set (kept_hits seen hits)" by simp
    from Cons.IH[OF this] show ?thesis .
  qed
qed

lemma kept_hits_valid:
  "h \<in> set (kept_hits seen hits) \<Longrightarrow> valid_hit h \<and> h \<in> set hits"
  by (induction hits arbitrary: seen) (auto split: if_splits)

lemma kept_hits_first:
  "h \<in> set (kept_hits seen hits) \<Longrightarrow>
     find (\<lambda>h'. valid_hit h' \<and> chunk_key h' = chunk_key h) hits = Some h"
proof (induction hits arbitrary: seen)
  case Nil
  then show ?case by simp
next
  case (Cons hit hits)
  show ?case
  proof (cases "valid_hit hit \<and> chunk_key hit \<notin> set seen")
    case True
    show ?thesis
    proof (cases "h = hit")
      case True
      with \<open>valid_hit hit \<and> chunk_key hit \<notin> set seen\<close> show ?thesis by simp
    next
      case False
      with True Cons.prems have mem: "h \<in> set (kept_hits (seen @ [chunk_key hit]) hits)"
        by simp
      from kept_hits_not_seen[OF mem]
      have "chunk_key h \<noteq> chunk_key hit" by auto
      with Cons.IH[OF mem] show ?thesis by simp
    qed
  next
    case False
    with Cons.prems have mem: "h \<in> set (kept_hits seen hits)" by simp
    from kept_hits_not_seen[OF mem] have "chunk_key h \<notin> set seen" .
    with False have "\<not> (valid_hit hit \<and> chunk_key hit = chunk_key h)" by auto
    with Cons.IH[OF mem] show ?thesis by auto
  qed
qed

lemma kept_hits_cover:
  "h \<in> set hits \<Longrightarrow> valid_hit h \<Longrightarrow>
     chunk_key h \<in> set seen \<union> chunk_key ` set (kept_hits seen hits)"
proof (induction hits arbitrary: seen)
  case Nil
  then show ?case by simp
next
  case (Cons hit hits)
  from Cons.prems Cons.IH[of seen] Cons.IH[of "seen @ [chunk_key hit]"] show ?case
    by (cases "h = hit") auto
qed

lemma kept_hits_subseq: "subseq (kept_hits seen hits) hits"
  by (induction hits arbitrary: seen) auto

lemma kept_hits_length: "length (kept_hits seen hits) \<le> length hits"
  by (induction hits arbitrary: seen) (auto intro: le_SucI)

lemma search_semantic:
  assumes "\<not> is_summary_request query" and "fids \<noteq> []"
  shows "fst (search env query uid fids w) =
           (case fst (collect_hits env query uid fids w) of
              Inl e \<Rightarrow> Inr []
            | Inr all_hits \<Rightarrow> Inr (map chunk_entry (kept_hits [] all_hits)))"
proof -
  obtain r w1 where c: "collect_hits env query uid fids w = (r, w1)"
    by (cases "collect_hits env query uid fids w")
  have "map snd (dedup_hits [] hits) = map chunk_entry (kept_hits [] hits)" for hits
    by (simp add: dedup_hits_kept comp_def)
  with c assms show ?thesis
    by (cases r) (simp_all add: search_fst search_try_def Let_def)
qed

text \<open>
  C6. In semantic mode the result is the list of entries of the hits kept by the
  deduplication: the kept hits have pairwise different \<open>(file_id, chunk_index)\<close> keys,
  each has both key parts and a true text, each is the first such hit with its key among
  the accumulated hits, they come in the order of the accumulated hits, and every
  accumulated hit with both key parts and a true text has its key among them. When
  collecting the hits fails, the result is empty.
\<close>

theorem semantic_search_deduplicates:
  assumes "\<not> is_summary_request query" and "fids \<noteq> []"
  shows "case fst (collect_hits env query uid fids w) of
           Inl e \<Rightarrow> fst (search env query uid fids w) = Inr []
         | Inr all_hits \<Rightarrow>
             (\<exists>kept. fst (search env query uid fids w) = Inr (map chunk_entry kept) \<and>
                distinct (map chunk_key kept) \<and>
                subseq kept all_hits \<and>
                (\<forall>h\<in>set kept. valid_hit h \<and>
                   find (\<lambda>h'. valid_hit h' \<and> chunk_key h' = chunk_key h) all_hits = Some h) \<and>
                (\<forall>h\<in>set all_hits. valid_hit h \<longrightarrow> chunk_key h \<in> chunk_key ` set kept))"
proof (cases "fst (collect_hits env query uid fids w)")
  case (Inl e)
  with search_semantic[OF assms, of env uid w] show ?thesis by simp
next
  case (Inr all_hits)
  let ?kept = "kept_hits [] all_hits"
  have "fst (search env query uid fids w) = Inr (map chunk_entry ?kept)"
    using search_semantic[OF assms, of env uid w] Inr by simp
  moreover have "distinct (map chunk_key ?kept)"
    using kept_hits_keys[of "[]" all_hits] by simp
  moreover have "subseq ?kept all_hits"
    by (rule kept_hits_subseq)
  moreover have "\<forall>h\<in>set ?kept. valid_hit h \<and>
      find (\<lambda>h'. valid_hit h' \<and> chunk_key h' = chunk_key h) all_hits = Some h"
    using kept_hits_valid[of _ "[]" all_hits] kept_hits_first[of _ "[]" all_hits] by blast
  moreover have "\<forall>h\<in>set all_hits. valid_hit h \<longrightarrow> chunk_key h \<in> chunk_key ` set ?kept"
    using kept_hits_cover[of _ all_hits "[]"] by simp
  ultimately show ?thesis using Inr by auto
qed

lemma qdrant_search_length:
  "qdrant_search env qv flt k w = (Inr hits, w') \<Longrightarrow> length hits \<le> k"
  by (auto simp: qdrant_search_def split: prod.splits sum.splits option.splits)

lemma fan_out_length:
  "fan_out env flt eqs acc w = (Inr hits, w') \<Longrightarrow>
     length hits \<le> length acc + TOP_K_RESULTS * length eqs"
proof (induction eqs arbitrary: acc w)
  case Nil
  then show ?case by simp
next
  case (Cons eq eqs)
  from Cons.prems obtain qv res w1 where
    step: "qdrant_search env qv flt TOP_K_RESULTS w = (Inr res, w1)"
    and rest: "fan_out env flt eqs (acc @ res) w1 = (Inr hits, w')"
    by (auto split: sum.splits prod.splits)
  from qdrant_search_length[OF step] Cons.IH[OF rest] show ?case by simp
qed

lemma collect_hits_length:
  assumes "collect_hits env query uid fids w = (Inr all_hits, w')"
  shows "length all_hits
           \<le> TOP_K_RESULTS * length (queries_of (fst (get_expanded_queries env query w)))"
proof -
  obtain x w1 where g: "get_expanded_queries env query w = (x, w1)"
    by (cases "get_expanded_queries env query w")
  with assms obtain eqs where it: "py_iter x = Inr eqs"
    and f: "fan_out env (query_filter uid fids) eqs [] w1 = (Inr all_hits, w')"
    by (auto simp: collect_hits_def split: sum.splits)
  from fan_out_length[OF f] it g show ?thesis by (simp add: queries_of_def)
qed

text \<open>
  C10. In semantic mode the number of returned chunks is at most \<open>TOP_K_RESULTS\<close> (3)
  times the number of queries the expansion gives.
\<close>

theorem semantic_search_bound:
  assumes "\<not> is_summary_request query"
  shows "\<exists>ps. fst (search env query uid fids w) = Inr ps \<and>
           length ps \<le> TOP_K_RESULTS
                          * length (queries_of (fst (get_expanded_queries env query w)))"
proof (cases "fids = []")
  case True
  then show ?thesis by (simp add: search_def)
next
  case False
  obtain r w1 where c: "collect_hits env query uid fids w = (r, w1)"
    by (cases "collect_hits env query uid fids w")
  show ?thesis
  proof (cases r)
    case (Inl e)
    with c search_semantic[OF assms False, of env uid w] show ?thesis by simp
  next
    case (Inr all_hits)
    with c search_semantic[OF assms False, of env uid w]
    have res: "fst (search env query uid fids w) = Inr (map chunk_entry (kept_hits [] all_hits))"
      by simp
    from c Inr have "length all_hits
           \<le> TOP_K_RESULTS * length (queries_of (fst (get_expanded_queries env query w)))"
      by (simp add: collect_hits_length)
    with kept_hits_length[of "[]" all_hits] res show ?thesis by simp
  qed
qed

lemma fan_out_embed_fails:
  "eq \<in> set eqs \<Longrightarrow> embed_query env eq = Inl e \<Longrightarrow>
     \<exists>e'. fst (fan_out env flt eqs acc w) = Inl e'"
proof (induction eqs arbitrary: acc w)
  case Nil
  then show ?case by simp
next
  case (Cons x eqs)
  show ?case
  proof (cases "embed_query env x")
    case (Inl e1)
    then show ?thesis by simp
  next
    case (Inr qv)
    with Cons.prems have mem: "eq \<in> set eqs" by auto
    obtain r w1 where s: "qdrant_search env qv flt TOP_K_RESULTS w = (r, w1)"
      by (cases "qdrant_search env qv flt TOP_K_RESULTS w")
    show ?thesis
    proof (cases r)
      case (Inl e2)
      with Inr s show ?thesis by simp
    next
      case r: (Inr res)
      with Inr s Cons.IH[OF mem Cons.prems(2), of "acc @ res" w1] show ?thesis by simp
    qed
  qed
qed


lemma scroll_fault:
  "faults w = Some (m, s) # fs \<Longrightarrow> fst (qdrant_scroll env flt k w) = Inl (StoreError m s)"
  by (simp add: qdrant_scroll_def store_call_def)

lemma scroll_no_collection:
  "coll w = None \<Longrightarrow> \<exists>e. fst (qdrant_scroll env flt k w) = Inl e"
  by (auto simp: qdrant_scroll_def store_call_def split: list.splits option.splits)

lemma search_fault:
  "faults w = Some (m, s) # fs \<Longrightarrow> fst (qdrant_search env qv flt k w) = Inl (StoreError m s)"
  by (simp add: qdrant_search_def store_call_def)

lemma search_no_collection:
  "coll w = None \<Longrightarrow> \<exists>e. fst (qdrant_search env qv flt k w) = Inl e"
  by (auto simp: qdrant_search_def store_call_def split: list.splits option.splits)

lemma search_consumes_fault:
  "qdrant_search env qv flt k w = (Inr res, w1) \<Longrightarrow> faults w1 = tl (faults w)"
  by (auto simp: qdrant_search_def store_call_def
      split: list.splits option.splits prod.splits sum.splits)

lemma fan_out_store_fault:
  "i < length eqs \<Longrightarrow> i < length (faults w) \<Longrightarrow> faults w ! i = Some (m, s) \<Longrightarrow>
     \<exists>e. fst (fan_out env flt eqs acc w) = Inl e"
proof (induction eqs arbitrary: i acc w)
  case Nil
  then show ?case by simp
next
  case (Cons x eqs)
  show ?case
  proof (cases "embed_query env x")
    case (Inl e1)
    then show ?thesis by simp
  next
    case (Inr qv)
    obtain r w1 where sr: "qdrant_search env qv flt TOP_K_RESULTS w = (r, w1)"
      by (cases "qdrant_search env qv flt TOP_K_RESULTS w")
    show ?thesis
    proof (cases r)
      case (Inl e2)
      with Inr sr show ?thesis by simp
    next
      case r: (Inr res)
      from search_consumes_fault[OF sr[unfolded r]] have f1: "faults w1 = tl (faults w)" .
      have "i \<noteq> 0"
      proof
        assume "i = 0"
        with Cons.prems(2,3) obtain fs where "faults w = Some (m, s) # fs"
          by (cases "faults w") auto
        from search_fault[OF this, of env qv flt TOP_K_RESULTS] sr r show False by simp
      qed
      then obtain j where i: "i = Suc j" by (cases i) auto
      with Cons.prems have j: "j < length eqs" "j < length (faults w1)"
        "faults w1 ! j = Some (m, s)"
        using f1 by (simp_all add: nth_tl)
      from Cons.IH[OF j, of "acc @ res"] Inr sr r show ?thesis by simp
    qed
  qed
qed

lemma fan_out_no_collection:
  assumes "eqs \<noteq> []" and "coll w = None"
  shows "\<exists>e. fst (fan_out env flt eqs acc w) = Inl e"
proof -
  from assms(1) obtain x rest where eqs: "eqs = x # rest" by (cases eqs) auto
  show ?thesis
  proof (cases "embed_query env x")
    case (Inl e1)
    with eqs show ?thesis by simp
  next
    case (Inr qv)
    obtain r w1 where sr: "qdrant_search env qv flt TOP_K_RESULTS w = (r, w1)"
      by (cases "qdrant_search env qv flt TOP_K_RESULTS w")
    with search_no_collection[OF assms(2), of env qv flt TOP_K_RESULTS]
    obtain e where "r = Inl e" by auto
    with eqs Inr sr show ?thesis by simp
  qed
qed

text \<open>
  C8. \<open>search\<close> never raises, and whenever its \<open>try\<close> block raises it returns the empty
  list. In summarization mode that is the case when the scroll fails, by a fault of the
  store or a missing collection. In semantic mode it is the case when the embedding
  service fails on any one of the expanded queries, when any of the store's searches
  fails (the \<open>i\<close>-th call of the store, for an \<open>i\<close> below the number of expanded queries),
  and when the collection is missing: hits of earlier queries are not returned.
\<close>

theorem search_swallows_failures:
  "(\<exists>ps. fst (search env query uid fids w) = Inr ps) \<and>
   (fids \<noteq> [] \<and> fst (search_try env query uid fids w) = Inl e \<longrightarrow>
      fst (search env query uid fids w) = Inr []) \<and>
   (is_summary_request query \<and> (coll w = None \<or> faults w = Some (m, s) # fs) \<longrightarrow>
      fst (search env query uid fids w) = Inr []) \<and>
   (\<not> is_summary_request query \<and>
    eq \<in> set (queries_of (fst (get_expanded_queries env query w))) \<and>
    embed_query env eq = Inl e1 \<longrightarrow>
      fst (search env query uid fids w) = Inr []) \<and>
   (\<not> is_summary_request query \<and>
    i < length (queries_of (fst (get_expanded_queries env query w))) \<and>
    i < length (faults w) \<and> faults w ! i = Some (m, s) \<longrightarrow>
      fst (search env query uid fids w) = Inr []) \<and>
   (\<not> is_summary_request query \<and>
    queries_of (fst (get_expanded_queries env query w)) \<noteq> [] \<and> coll w = None \<longrightarrow>
      fst (search env query uid fids w) = Inr [])"
proof -
  have total: "\<exists>ps. fst (search env query uid fids w) = Inr ps"
  proof (cases "fids = []")
    case True
    then show ?thesis by (simp add: search_def)
  next
    case False
    then show ?thesis by (simp add: search_fst split: sum.splits)
  qed
  have caught: "fst (search env query uid fids w) = Inr []"
    if "fst (search_try env query uid fids w) = Inl e'" for e'
  proof (cases "fids = []")
    case True
    then show ?thesis by (simp add: search_def)
  next
    case False
    with that show ?thesis by (simp add: search_fst)
  qed
  have summary: "fst (search env query uid fids w) = Inr []"
    if mode: "is_summary_request query"
      and fail: "coll w = None \<or> faults w = Some (m, s) # fs"
  proof -
    obtain r w1 where sc:
      "qdrant_scroll env (query_filter uid fids) SUMMARY_CHUNK_LIMIT w = (r, w1)"
      by (cases "qdrant_scroll env (query_filter uid fids) SUMMARY_CHUNK_LIMIT w")
    from fail have "\<exists>e'. fst (qdrant_scroll env (query_filter uid fids) SUMMARY_CHUNK_LIMIT w)
                        = Inl e'"
      using scroll_no_collection[of w env "query_filter uid fids" SUMMARY_CHUNK_LIMIT]
        scroll_fault[of w m s fs env "query_filter uid fids" SUMMARY_CHUNK_LIMIT]
      by auto
    with sc obtain e' where "r = Inl e'" by auto
    with sc mode have "fst (search_try env query uid fids w) = Inl e'"
      by (simp add: search_try_def)
    then show ?thesis by (rule caught)
  qed
  have collect: "fst (search env query uid fids w) = Inr []"
    if sem: "\<not> is_summary_request query"
      and fail: "\<exists>e'. fst (collect_hits env query uid fids w) = Inl e'"
  proof -
    obtain r w1 where c: "collect_hits env query uid fids w = (r, w1)"
      by (cases "collect_hits env query uid fids w")
    with fail obtain e' where "r = Inl e'" by auto
    with c sem have "fst (search_try env query uid fids w) = Inl e'"
      by (simp add: search_try_def)
    then show ?thesis by (rule caught)
  qed
  have fan: "\<exists>e'. fst (collect_hits env query uid fids w) = Inl e'"
    if step: "\<And>eqs (w1::world). queries_of (fst (get_expanded_queries env query w)) = eqs \<Longrightarrow>
                coll w1 = coll w \<Longrightarrow> faults w1 = faults w \<Longrightarrow>
                \<exists>e'. fst (fan_out env (query_filter uid fids) eqs [] w1) = Inl e'"
  proof -
    obtain x w1 where g: "get_expanded_queries env query w = (x, w1)"
      by (cases "get_expanded_queries env query w")
    from get_expanded_queries_keeps[of env query w] g
    have keep: "coll w1 = coll w" "faults w1 = faults w" by simp_all
    show ?thesis
    proof (cases "py_iter x")
      case (Inl e2)
      with g show ?thesis by (simp add: collect_hits_def)
    next
      case (Inr eqs)
      with g have "queries_of (fst (get_expanded_queries env query w)) = eqs"
        by (simp add: queries_of_def)
      from step[OF this keep] Inr g show ?thesis by (simp add: collect_hits_def)
    qed
  qed
  have embed: "fst (search env query uid fids w) = Inr []"
    if sem: "\<not> is_summary_request query"
      and mem: "eq \<in> set (queries_of (fst (get_expanded_queries env query w)))"
      and fail: "embed_query env eq = Inl e1"
  proof -
    have "\<exists>e'. fst (collect_hits env query uid fids w) = Inl e'"
    proof (rule fan)
      fix eqs and w1 :: world
      assume "queries_of (fst (get_expanded_queries env query w)) = eqs"
      with mem have "eq \<in> set eqs" by simp
      from fan_out_embed_fails[OF this fail]
      show "\<exists>e'. fst (fan_out env (query_filter uid fids) eqs [] w1) = Inl e'" .
    qed
    with sem show ?thesis by (rule collect)
  qed
  have store: "fst (search env query uid fids w) = Inr []"
    if sem: "\<not> is_summary_request query"
      and ix: "i < length (queries_of (fst (get_expanded_queries env query w)))"
        "i < length (faults w)" "faults w ! i = Some (m, s)"
  proof -
    have "\<exists>e'. fst (collect_hits env query uid fids w) = Inl e'"
    proof (rule fan)
      fix eqs and w1 :: world
      assume "queries_of (fst (get_expanded_queries env query w)) = eqs"
        and "coll w1 = coll w" and f: "faults w1 = faults w"
      with ix have "i < length eqs" "i < length (faults w1)" "faults w1 ! i = Some (m, s)"
        by simp_all
      from fan_out_store_fault[OF this]
      show "\<exists>e'. fst (fan_out env (query_filter uid fids) eqs [] w1) = Inl e'" .
    qed
    with sem show ?thesis by (rule collect)
  qed
  have missing: "fst (search env query uid fids w) = Inr []"
    if sem: "\<not> is_summary_request query"
      and ne: "queries_of (fst (get_expanded_queries env query w)) \<noteq> []"
      and none: "coll w = None"
  proof -
    have "\<exists>e'. fst (collect_hits env query uid fids w) = Inl e'"
    proof (rule fan)
      fix eqs and w1 :: world
      assume "queries_of (fst (get_expanded_queries env query w)) = eqs"
        and "coll w1 = coll w"
      with ne none have "eqs \<noteq> []" "coll w1 = None" by simp_all
      from fan_out_no_collection[OF this]
      show "\<exists>e'. fst (fan_out env (query_filter uid fids) eqs [] w1) = Inl e'" .
    qed
    with sem show ?thesis by (rule collect)
  qed
  from total caught summary embed store missing show ?thesis by blast
qed

lemma sorted_wrt_short: "length xs \<le> 1 \<Longrightarrow> sorted_wrt P xs"
  by (cases xs) auto

lemma py_le_int: "is_int a \<Longrightarrow> is_int b \<Longrightarrow> py_le a b = (the_int a \<le> the_int b)"
  by (cases a; cases b) simp_all

lemma py_le_str: "is_str a \<Longrightarrow> is_str b \<Longrightarrow> py_le a b = (the_str a \<le> the_str b)"
  by (cases a; cases b) simp_all

lemma py_sorted_cases:
  "(length xs \<le> 1 \<and> py_sorted key xs = Inr xs)
   \<or> (list_all (\<lambda>x. is_int (key x)) xs \<and>
        py_sorted key xs = Inr (sort_key (\<lambda>x. the_int (key x)) xs))
   \<or> (list_all (\<lambda>x. is_str (key x)) xs \<and>
        py_sorted key xs = Inr (sort_key (\<lambda>x. the_str (key x)) xs))
   \<or> (\<not> sortable_keys (map key xs) \<and> py_sorted key xs = Inl TypeError)"
proof (cases "length xs \<le> 1")
  case True
  then show ?thesis by (simp add: py_sorted_def)
next
  case long: False
  show ?thesis
  proof (cases "list_all (\<lambda>x. is_int (key x)) xs")
    case True
    with long show ?thesis by (simp add: py_sorted_def)
  next
    case noint: False
    show ?thesis
    proof (cases "list_all (\<lambda>x. is_str (key x)) xs")
      case True
      with long noint show ?thesis by (simp add: py_sorted_def)
    next
      case False
      with long noint have "\<not> sortable_keys (map key xs)"
        by (simp add: sortable_keys_def list_all_iff)
      with long noint False show ?thesis by (simp add: py_sorted_def)
    qed
  qed
qed

lemma py_sorted_ok:
  assumes "py_sorted key xs = Inr ys"
  shows "sorted_wrt (\<lambda>a b. py_le (key a) (key b)) ys" and "mset ys = mset xs"
    and "sortable_keys (map key xs)"
proof -
  from py_sorted_cases[of xs key] assms
  consider (short) "length xs \<le> 1" "ys = xs"
    | (ints) "list_all (\<lambda>x. is_int (key x)) xs" "ys = sort_key (\<lambda>x. the_int (key x)) xs"
    | (strs) "list_all (\<lambda>x. is_str (key x)) xs" "ys = sort_key (\<lambda>x. the_str (key x)) xs"
    by auto
  then have "sorted_wrt (\<lambda>a b. py_le (key a) (key b)) ys \<and> mset ys = mset xs
             \<and> sortable_keys (map key xs)"
  proof cases
    case short
    then show ?thesis by (simp add: sorted_wrt_short sortable_keys_def)
  next
    case ints
    have "sorted (map (\<lambda>x. the_int (key x)) ys)"
      using ints(2) by simp
    then have s: "sorted_wrt (\<lambda>a b. the_int (key a) \<le> the_int (key b)) ys"
      by (simp add: sorted_map)
    have all: "\<forall>y\<in>set ys. is_int (key y)"
      using ints by (simp add: list_all_iff)
    have "sorted_wrt (\<lambda>a b. py_le (key a) (key b)) ys"
      by (rule sorted_wrt_mono_rel[OF _ s]) (simp add: py_le_int all)
    moreover have "sortable_keys (map key xs)"
      using ints(1) by (simp add: sortable_keys_def list_all_iff)
    ultimately show ?thesis using ints(2) by simp
  next
    case strs
    have "sorted (map (\<lambda>x. the_str (key x)) ys)"
      using strs(2) by simp
    then have s: "sorted_wrt (\<lambda>a b. the_str (key a) \<le> the_str (key b)) ys"
      by (simp add: sorted_map)
    have all: "\<forall>y\<in>set ys. is_str (key y)"
      using strs by (simp add: list_all_iff)
    have "sorted_wrt (\<lambda>a b. py_le (key a) (key b)) ys"
      by (rule sorted_wrt_mono_rel[OF _ s]) (simp add: py_le_str all)
    moreover have "sortable_keys (map key xs)"
      using strs(1) by (simp add: sortable_keys_def list_all_iff)
    ultimately show ?thesis using strs(2) by simp
  qed
  then show "sorted_wrt (\<lambda>a b. py_le (key a) (key b)) ys" and "mset ys = mset xs"
    and "sortable_keys (map key xs)" by simp_all
qed

lemma py_sorted_raises:
  "py_sorted key xs = Inl e \<Longrightarrow> \<not> sortable_keys (map key xs)"
  using py_sorted_cases[of xs key] by auto

lemma scroll_page:
  assumes "coll w = Some c" and "\<not> next_call_fails w"
  shows "fst (qdrant_scroll env flt k w) =
           Inr (take k (sort_key (\<lambda>p. id_key env (pid p)) (filter (matches flt) (points c))))"
  using assms
  by (auto simp: qdrant_scroll_def store_call_def next_call_fails_def
      split: list.splits option.splits)

lemma scroll_raises:
  assumes "coll w = None \<or> next_call_fails w"
  shows "\<exists>e. fst (qdrant_scroll env flt k w) = Inl e"
  using assms
  by (auto simp: qdrant_scroll_def store_call_def next_call_fails_def
      split: list.splits option.splits)

lemma mset_take_subset: "mset (take k xs) \<subseteq># mset xs"
proof -
  have "mset xs = mset (take k xs) + mset (drop k xs)"
    by (metis append_take_drop_id mset_append)
  then show ?thesis by simp
qed

lemma summary_result:
  assumes mode: "is_summary_request query" and ne: "fids \<noteq> []"
  shows "fst (search env query uid fids w) =
           (case fst (qdrant_scroll env (query_filter uid fids) SUMMARY_CHUNK_LIMIT w) of
              Inl e \<Rightarrow> Inr []
            | Inr page \<Rightarrow>
                (case py_sorted chunk_index_key (map payload page) of
                   Inl e \<Rightarrow> Inr []
                 | Inr payloads \<Rightarrow> Inr payloads))"
proof -
  obtain r w1 where sc: "qdrant_scroll env (query_filter uid fids) SUMMARY_CHUNK_LIMIT w = (r, w1)"
    by (cases "qdrant_scroll env (query_filter uid fids) SUMMARY_CHUNK_LIMIT w")
  show ?thesis
  proof (cases r)
    case (Inl e)
    with sc mode have "fst (search_try env query uid fids w) = Inl e"
      by (simp add: search_try_def)
    with sc Inl ne show ?thesis by (simp add: search_fst)
  next
    case (Inr page)
    show ?thesis
    proof (cases "page = []")
      case True
      with sc Inr mode have "fst (search_try env query uid fids w) = Inr []"
        by (simp add: search_try_def)
      with sc Inr True ne show ?thesis by (simp add: search_fst py_sorted_def)
    next
      case False
      with sc Inr mode have "fst (search_try env query uid fids w) =
          (case py_sorted chunk_index_key (map payload page) of
             Inl e \<Rightarrow> Inl e | Inr payloads \<Rightarrow> Inr payloads)"
        by (simp add: search_try_def split: sum.splits)
      with sc Inr ne show ?thesis by (simp add: search_fst split: sum.splits)
    qed
  qed
qed

text \<open>
  C7. In summarization mode the search returns a list of at most
  \<open>SUMMARY_CHUNK_LIMIT\<close> (30) payloads in non-decreasing order of the sort key
  \<open>chunk_index\<close> (0 when the key is missing). The list is empty when \<open>file_ids\<close> is empty,
  the collection is missing or the scroll fails. Otherwise the scroll fetches a page
  of stored points that match the \<open>user_id\<close> and \<open>file_ids\<close> filter, 30 of them or all when
  fewer match (the first in the store's order of point ids), and the search returns
  exactly the payloads of that page, each as often as it occurs there, when their keys
  can be compared, and the empty list when they cannot.
\<close>

theorem summary_search_sorted:
  assumes "is_summary_request query"
  shows "\<exists>ps. fst (search env query uid fids w) = Inr ps \<and>
           length ps \<le> SUMMARY_CHUNK_LIMIT \<and>
           sorted_wrt (\<lambda>a b. py_le (chunk_index_key a) (chunk_index_key b)) ps \<and>
           (fids = [] \<or> coll w = None \<or> next_call_fails w \<longrightarrow> ps = []) \<and>
           (\<forall>c. fids \<noteq> [] \<and> coll w = Some c \<and> \<not> next_call_fails w \<longrightarrow>
              (\<exists>page.
                 page = take SUMMARY_CHUNK_LIMIT
                          (sort_key (\<lambda>p. id_key env (pid p))
                             (filter (matches (query_filter uid fids)) (points c))) \<and>
                 mset page \<subseteq># mset (filter (matches (query_filter uid fids)) (points c)) \<and>
                 length page = min SUMMARY_CHUNK_LIMIT
                                 (length (filter (matches (query_filter uid fids)) (points c))) \<and>
                 (if sortable_keys (map (\<lambda>p. chunk_index_key (payload p)) page)
                  then mset ps = mset (map payload page)
                  else ps = [])))"
proof (cases "fids = []")
  case True
  then show ?thesis by (simp add: search_def)
next
  case ne: False
  note res = summary_result[OF assms ne, of env uid w]
  let ?flt = "query_filter uid fids"
  show ?thesis
  proof (cases "coll w = None \<or> next_call_fails w")
    case True
    from scroll_raises[OF True, of env ?flt SUMMARY_CHUNK_LIMIT] res
    have "fst (search env query uid fids w) = Inr []" by auto
    with True show ?thesis by auto
  next
    case False
    then obtain c where c: "coll w = Some c" and calm: "\<not> next_call_fails w" by auto
    let ?page = "take SUMMARY_CHUNK_LIMIT
                   (sort_key (\<lambda>p. id_key env (pid p)) (filter (matches ?flt) (points c)))"
    have page: "fst (qdrant_scroll env ?flt SUMMARY_CHUNK_LIMIT w) = Inr ?page"
      by (rule scroll_page[OF c calm])
    have sub: "mset ?page \<subseteq># mset (filter (matches ?flt) (points c))"
      using mset_take_subset[of SUMMARY_CHUNK_LIMIT
          "sort_key (\<lambda>p. id_key env (pid p)) (filter (matches ?flt) (points c))"]
      by simp
    have len: "length ?page = min SUMMARY_CHUNK_LIMIT (length (filter (matches ?flt) (points c)))"
      by simp
    have keys: "map (\<lambda>p. chunk_index_key (payload p)) ?page = map chunk_index_key (map payload ?page)"
      by simp
    have final: ?thesis
      if r: "fst (search env query uid fids w) = Inr ps"
        and bound: "length ps \<le> SUMMARY_CHUNK_LIMIT"
        and srt: "sorted_wrt (\<lambda>a b. py_le (chunk_index_key a) (chunk_index_key b)) ps"
        and content: "if sortable_keys (map (\<lambda>p. chunk_index_key (payload p)) ?page)
                      then mset ps = mset (map payload ?page) else ps = []"
      for ps
    proof (intro exI[of _ ps] conjI)
      show "fst (search env query uid fids w) = Inr ps" by (rule r)
      show "length ps \<le> SUMMARY_CHUNK_LIMIT" by (rule bound)
      show "sorted_wrt (\<lambda>a b. py_le (chunk_index_key a) (chunk_index_key b)) ps" by (rule srt)
      show "fids = [] \<or> coll w = None \<or> next_call_fails w \<longrightarrow> ps = []"
        using ne c calm by simp
      show "\<forall>c. fids \<noteq> [] \<and> coll w = Some c \<and> \<not> next_call_fails w \<longrightarrow>
              (\<exists>page.
                 page = take SUMMARY_CHUNK_LIMIT
                          (sort_key (\<lambda>p. id_key env (pid p))
                             (filter (matches (query_filter uid fids)) (points c))) \<and>
                 mset page \<subseteq># mset (filter (matches (query_filter uid fids)) (points c)) \<and>
                 length page = min SUMMARY_CHUNK_LIMIT
                                 (length (filter (matches (query_filter uid fids)) (points c))) \<and>
                 (if sortable_keys (map (\<lambda>p. chunk_index_key (payload p)) page)
                  then mset ps = mset (map payload page)
                  else ps = []))"
      proof (intro allI impI)
        fix c'
        assume "fids \<noteq> [] \<and> coll w = Some c' \<and> \<not> next_call_fails w"
        with c have same: "c' = c" by simp
        show "\<exists>page.
                 page = take SUMMARY_CHUNK_LIMIT
                          (sort_key (\<lambda>p. id_key env (pid p))
                             (filter (matches (query_filter uid fids)) (points c'))) \<and>
                 mset page \<subseteq># mset (filter (matches (query_filter uid fids)) (points c')) \<and>
                 length page = min SUMMARY_CHUNK_LIMIT
                                 (length (filter (matches (query_filter uid fids)) (points c'))) \<and>
                 (if sortable_keys (map (\<lambda>p. chunk_index_key (payload p)) page)
                  then mset ps = mset (map payload page)
                  else ps = [])"
          unfolding same
          by (rule exI[of _ ?page], intro conjI refl sub len content)
      qed
    qed
    show ?thesis
    proof (cases "py_sorted chunk_index_key (map payload ?page)")
      case (Inl e)
      with res page have r: "fst (search env query uid fids w) = Inr []" by simp
      from py_sorted_raises[OF Inl]
      have "\<not> sortable_keys (map (\<lambda>p. chunk_index_key (payload p)) ?page)"
        by (simp only: map_map comp_def simp_thms)
      then have "if sortable_keys (map (\<lambda>p. chunk_index_key (payload p)) ?page)
                 then mset [] = mset (map payload ?page) else ([]::payload list) = []"
        by (simp only: if_False simp_thms)
      with r show ?thesis by (intro final[of "[]"]) simp_all
    next
      case (Inr payloads)
      with res page have r: "fst (search env query uid fids w) = Inr payloads" by simp
      note ok = py_sorted_ok[OF Inr]
      from ok(3) have sk: "sortable_keys (map (\<lambda>p. chunk_index_key (payload p)) ?page)"
        by (simp only: map_map comp_def simp_thms)
      from ok(2) have "length payloads = length (map payload ?page)"
        by (metis size_mset)
      then have bound: "length payloads \<le> SUMMARY_CHUNK_LIMIT" by simp
      have "if sortable_keys (map (\<lambda>p. chunk_index_key (payload p)) ?page)
            then mset payloads = mset (map payload ?page) else payloads = []"
        using sk ok(2) by (simp only: if_True simp_thms)
      with r bound ok(1) show ?thesis by (intro final[of payloads])
    qed
  qed
qed

lemma expand_try_decode_fails:
  assumes "invoke query = Inr content" and "strip_fence (py_strip content) = Inr response_text"
    and "json_loads env response_text = Inl e"
  shows "expand_try env invoke query = Inl e"
  using assms by (simp add: expand_try_def)

text \<open>
  C9. When the chat client is absent, or its reply does not decode as JSON, the
  expansion returns exactly the list holding the original query, and a semantic-mode
  search is the search for that one query: its embedding, one top-3 search, and the
  deduplication of those hits.
\<close>

theorem expansion_falls_back_to_query:
  assumes "db_client env = None \<or>
           (\<exists>invoke content response_text e.
              db_client env = Some invoke \<and> invoke query = Inr content \<and>
              strip_fence (py_strip content) = Inr response_text \<and>
              json_loads env response_text = Inl e)"
  shows "fst (get_expanded_queries env query w) = JArr [JStr query] \<and>
         (\<not> is_summary_request query \<and> fids \<noteq> [] \<longrightarrow>
            fst (search env query uid fids w) =
              (case embed_query env (JStr query) of
                 Inl e \<Rightarrow> Inr []
               | Inr query_vector \<Rightarrow>
                   (case fst (qdrant_search env query_vector (query_filter uid fids)
                                TOP_K_RESULTS w) of
                      Inl e \<Rightarrow> Inr []
                    | Inr search_results \<Rightarrow> Inr (map snd (dedup_hits [] search_results)))))"
proof -
  obtain x w1 where g: "get_expanded_queries env query w = (x, w1)"
    by (cases "get_expanded_queries env query w")
  from assms have "fst (get_expanded_queries env query w) = JArr [JStr query]"
  proof
    assume "db_client env = None"
    then show ?thesis by (simp add: get_expanded_queries_def)
  next
    assume "\<exists>invoke content response_text e.
              db_client env = Some invoke \<and> invoke query = Inr content \<and>
              strip_fence (py_strip content) = Inr response_text \<and>
              json_loads env response_text = Inl e"
    then obtain invoke content response_text e where
      "db_client env = Some invoke" "expand_try env invoke query = Inl e"
      using expand_try_decode_fails by blast
    then show ?thesis by (simp add: get_expanded_queries_def)
  qed
  with g have x: "x = JArr [JStr query]" by simp
  have same: "coll w1 = coll w" "faults w1 = faults w"
    using get_expanded_queries_keeps[of env query w] g by simp_all
  have "fst (search env query uid fids w) =
              (case embed_query env (JStr query) of
                 Inl e \<Rightarrow> Inr []
               | Inr query_vector \<Rightarrow>
                   (case fst (qdrant_search env query_vector (query_filter uid fids)
                                TOP_K_RESULTS w) of
                      Inl e \<Rightarrow> Inr []
                    | Inr search_results \<Rightarrow> Inr (map snd (dedup_hits [] search_results))))"
    if sem: "\<not> is_summary_request query" and ne: "fids \<noteq> []"
  proof (cases "embed_query env (JStr query)")
    case (Inl e)
    with g x have "fst (collect_hits env query uid fids w) = Inl e"
      by (simp add: collect_hits_def)
    with search_semantic[OF sem ne, of env uid w] Inl show ?thesis by simp
  next
    case (Inr qv)
    obtain r w2 where s: "qdrant_search env qv (query_filter uid fids) TOP_K_RESULTS w1 = (r, w2)"
      by (cases "qdrant_search env qv (query_filter uid fids) TOP_K_RESULTS w1")
    from qdrant_search_same(1)[OF same, of env qv "query_filter uid fids" TOP_K_RESULTS] s
    have rw: "fst (qdrant_search env qv (query_filter uid fids) TOP_K_RESULTS w) = r" by simp
    have kept: "map snd (dedup_hits [] hits) = map chunk_entry (kept_hits [] hits)" for hits
      by (simp add: dedup_hits_kept comp_def)
    show ?thesis
    proof (cases r)
      case (Inl e)
      with g x Inr s have "fst (collect_hits env query uid fids w) = Inl e"
        by (simp add: collect_hits_def)
      with search_semantic[OF sem ne, of env uid w] Inr rw Inl show ?thesis by simp
    next
      case r: (Inr res)
      with g x Inr s have "fst (collect_hits env query uid fids w) = Inr res"
        by (simp add: collect_hits_def)
      with search_semantic[OF sem ne, of env uid w] Inr rw r kept show ?thesis by simp
    qed
  qed
  with \<open>fst (get_expanded_queries env query w) = JArr [JStr query]\<close> show ?thesis by blast
qed

text \<open>
  C4 as amended. When the expansion returns a list, the list is not empty and contains
  the original query: it is the list holding the query alone, or the array the reply
  decoded to, with the query appended when the array did not contain it. Its length
  and the distinctness of its entries are those of the decoded array.
\<close>

theorem expanded_queries_contain_query:
  assumes "fst (get_expanded_queries env query w) = JArr qs"
  shows "qs \<noteq> [] \<and> JStr query \<in> set qs \<and>
         (qs = [JStr query] \<or>
          (\<exists>invoke content response_text xs.
             db_client env = Some invoke \<and> invoke query = Inr content \<and>
             strip_fence (py_strip content) = Inr response_text \<and>
             json_loads env response_text = Inr (JArr xs) \<and>
             qs = (if JStr query \<in> set xs then xs else xs @ [JStr query])))"
proof (cases "db_client env")
  case None
  with assms show ?thesis by (auto simp: get_expanded_queries_def)
next
  case (Some invoke)
  show ?thesis
  proof (cases "expand_try env invoke query")
    case (Inl e)
    with Some assms show ?thesis by (auto simp: get_expanded_queries_def)
  next
    case (Inr v)
    with Some assms have v: "v = JArr qs" by (simp add: get_expanded_queries_def)
    from Inr obtain content response_text decoded present where
      steps: "invoke query = Inr content" "strip_fence (py_strip content) = Inr response_text"
        "json_loads env response_text = Inr decoded" "py_in query decoded = Inr present"
        "(if \<not> present then py_append decoded query else Inr decoded) = Inr v"
      by (auto simp: expand_try_def split: sum.splits)
    from steps(4,5) v obtain xs where
      xs: "decoded = JArr xs" "qs = (if JStr query \<in> set xs then xs else xs @ [JStr query])"
      by (cases decoded) (auto split: if_splits)
    from xs(2) have "qs \<noteq> [] \<and> JStr query \<in> set qs"
      by (auto split: if_splits)
    with Some steps(1,2,3) xs show ?thesis by blast
  qed
qed

section \<open>Runs of the instance\<close>

theorem mismatch_recreates_once_witness:
  "(\<exists>c. coll demo_mismatch = Some c \<and> vsize c = 768) \<and> (768::nat) \<noteq> EMBEDDING_DIM \<and>
   take 7 (faults demo_mismatch) = [None, None, None, None, None, None, None] \<and>
   get_or_create_collection demo_mismatch =
     (Inr (),
      \<lparr>coll = Some \<lparr>vsize = 1024, metric = Cosine, indexes = [''user_id'', ''file_id''],
                     points = []\<rparr>,
       faults = [Some (''timeout'', None)],
       logged = [VerifyingCollection, DimensionMismatch 1024 768, CollectionNotFound,
                 CreatingCollection, CreatingIndexes, CollectionCreated],
       uuid_count = 0\<rparr>) \<and>
   mismatch_count demo_mismatch (snd (get_or_create_collection demo_mismatch)) \<le> 1"
proof -
  let ?c = "\<lparr>vsize = 768, metric = Cosine, indexes = [''user_id''],
             points = [\<lparr>pid = ''old'', vec = [0],
                        payload = point_payload demo_doc 0 ''alpha''\<rparr>]\<rparr>"
  have h1: "coll demo_mismatch = Some ?c" by (simp add: demo_mismatch_def)
  have h2: "vsize ?c \<noteq> EMBEDDING_DIM" by (simp add: EMBEDDING_DIM_def)
  have h3: "\<forall>f\<in>set (take 7 (faults demo_mismatch)). f = None"
    by (simp add: demo_mismatch_def)
  from mismatch_recreates_once[OF h1 h2] h3
  have bound: "mismatch_count demo_mismatch (snd (get_or_create_collection demo_mismatch)) \<le> 1"
    and run: "get_or_create_collection demo_mismatch =
      (Inr (),
       demo_mismatch\<lparr>coll := Some \<lparr>vsize = EMBEDDING_DIM, metric = Cosine,
                                indexes = [''user_id'', ''file_id''], points = []\<rparr>,
                 faults := drop 7 (faults demo_mismatch),
                 logged := logged demo_mismatch @
                   [VerifyingCollection, DimensionMismatch EMBEDDING_DIM (vsize ?c),
                    CollectionNotFound, CreatingCollection, CreatingIndexes,
                    CollectionCreated]\<rparr>)"
    by blast+
  have a: "\<exists>c. coll demo_mismatch = Some c \<and> vsize c = 768"
    using h1 by simp
  have b: "(768::nat) \<noteq> EMBEDDING_DIM"
    by (simp add: EMBEDDING_DIM_def)
  have d: "get_or_create_collection demo_mismatch =
     (Inr (),
      \<lparr>coll = Some \<lparr>vsize = 1024, metric = Cosine, indexes = [''user_id'', ''file_id''],
                     points = []\<rparr>,
       faults = [Some (''timeout'', None)],
       logged = [VerifyingCollection, DimensionMismatch 1024 768, CollectionNotFound,
                 CreatingCollection, CreatingIndexes, CollectionCreated],
       uuid_count = 0\<rparr>)"
    unfolding run by (simp add: demo_mismatch_def EMBEDDING_DIM_def)
  have c: "take 7 (faults demo_mismatch) = [None, None, None, None, None, None, None]"
    by (simp add: demo_mismatch_def)
  from a b c d bound show ?thesis by blast
qed

lemmas demo_search_eval =
  search_def search_try_def collect_hits_def get_expanded_queries_def expand_try_def
  strip_fence_def json_fence_def fence_def py_split_def py_strip_def py_isspace_def
  demo_llm_def demo_env_def demo_json_loads_def demo_known_def demo_json_array_def
  demo_fenced_reply_def demo_search_world_def demo_points_def demo_doc_def
  point_payload_def query_filter_def qdrant_search_def qdrant_scroll_def store_call_def
  logging_def matches_def TOP_K_RESULTS_def SUMMARY_CHUNK_LIMIT_def chunk_key_def
  chunk_entry_def payload_get_def queries_of_def valid_hit_def py_sorted_def
  chunk_index_key_def Let_def next_call_fails_def

lemma demo_not_summary: "\<not> is_summary_request ''q''"
  by code_simp

lemma demo_not_summary_boom: "\<not> is_summary_request ''boom''"
  by code_simp

lemma demo_summary: "is_summary_request ''Summarize this file''"
  by code_simp

lemma demo_expand_five:
  "fst (get_expanded_queries (demo_llm (demo_json_array [''a'', ''b'', ''c'', ''d'', ''e'']))
          ''q'' demo_world)
     = JArr [JStr ''a'', JStr ''b'', JStr ''c'', JStr ''d'', JStr ''e'', JStr ''q'']"
  by (simp add: demo_search_eval)

lemma demo_expand_dup:
  "fst (get_expanded_queries (demo_llm (demo_json_array [''a'', ''a'', ''b''])) ''q'' demo_world)
     = JArr [JStr ''a'', JStr ''a'', JStr ''b'', JStr ''q'']"
  by (simp add: demo_search_eval)

lemma demo_expand_fenced:
  "fst (get_expanded_queries (demo_llm demo_fenced_reply) ''q'' w) = JArr [JStr ''a'', JStr ''q'']"
  by (simp add: demo_search_eval)

lemma demo_collect:
  "fst (collect_hits (demo_llm demo_fenced_reply) ''q'' ''u1'' [''f1''] demo_search_world)
     = Inr [demo_points ! 0, demo_points ! 1, demo_points ! 2,
            demo_points ! 3, demo_points ! 2, demo_points ! 1]"
  by (simp add: demo_search_eval)

lemma demo_search_semantic:
  "fst (search (demo_llm demo_fenced_reply) ''q'' ''u1'' [''f1''] demo_search_world)
     = Inr [[(''text'', PyStr ''gamma''), (''original_filename'', PyStr ''a.pdf'')],
            [(''text'', PyStr ''alpha''), (''original_filename'', PyStr ''a.pdf'')],
            [(''text'', PyStr ''beta''), (''original_filename'', PyStr ''a.pdf'')]]"
  by (simp add: demo_search_eval demo_not_summary)

lemma demo_search_summary:
  "fst (search demo_env ''Summarize this file'' ''u1'' [''f1''] demo_search_world)
     = Inr [point_payload demo_doc 0 ''alpha'', point_payload demo_doc 1 ''beta'',
            point_payload demo_doc 2 ''gamma'', point_payload demo_doc 3 []]"
  by (simp add: demo_search_eval demo_summary)


text \<open>
  C4 fails on the code. A reply that follows the prompt with five distinct queries,
  none of them the original, gives six queries; a reply that repeats a query is
  returned with the repetition.
\<close>

theorem expansion_one_to_five_distinct_counterexample:
  "fst (get_expanded_queries (demo_llm (demo_json_array [''a'', ''b'', ''c'', ''d'', ''e'']))
          ''q'' demo_world)
     = JArr [JStr ''a'', JStr ''b'', JStr ''c'', JStr ''d'', JStr ''e'', JStr ''q''] \<and>
   \<not> length [JStr ''a'', JStr ''b'', JStr ''c'', JStr ''d'', JStr ''e'', JStr ''q''] \<le> 5 \<and>
   fst (get_expanded_queries (demo_llm (demo_json_array [''a'', ''a'', ''b''])) ''q'' demo_world)
     = JArr [JStr ''a'', JStr ''a'', JStr ''b'', JStr ''q''] \<and>
   \<not> distinct [JStr ''a'', JStr ''a'', JStr ''b'', JStr ''q'']"
  by (simp add: demo_expand_five demo_expand_dup)

theorem expanded_queries_contain_query_witness:
  "fst (get_expanded_queries (demo_llm (demo_json_array [''a'', ''b'', ''c'', ''d'', ''e'']))
          ''q'' demo_world)
     = JArr [JStr ''a'', JStr ''b'', JStr ''c'', JStr ''d'', JStr ''e'', JStr ''q''] \<and>
   [JStr ''a'', JStr ''b'', JStr ''c'', JStr ''d'', JStr ''e'', JStr ''q''] \<noteq> [] \<and>
   JStr ''q'' \<in> set [JStr ''a'', JStr ''b'', JStr ''c'', JStr ''d'', JStr ''e'', JStr ''q'']"
  using expanded_queries_contain_query[OF demo_expand_five] demo_expand_five
  by simp

theorem semantic_search_deduplicates_witness:
  "\<not> is_summary_request ''q'' \<and> [''f1''] \<noteq> [] \<and>
   fst (collect_hits (demo_llm demo_fenced_reply) ''q'' ''u1'' [''f1''] demo_search_world)
     = Inr [demo_points ! 0, demo_points ! 1, demo_points ! 2,
            demo_points ! 3, demo_points ! 2, demo_points ! 1] \<and>
   fst (search (demo_llm demo_fenced_reply) ''q'' ''u1'' [''f1''] demo_search_world)
     = Inr (map chunk_entry [demo_points ! 0, demo_points ! 1, demo_points ! 2]) \<and>
   (\<exists>kept. fst (search (demo_llm demo_fenced_reply) ''q'' ''u1'' [''f1''] demo_search_world)
              = Inr (map chunk_entry kept) \<and>
           distinct (map chunk_key kept) \<and> (\<forall>h\<in>set kept. valid_hit h))"
proof -
  have h1: "\<not> is_summary_request ''q''" by (rule demo_not_summary)
  have h2: "[''f1''] \<noteq> ([]::string list)" by simp
  have res: "fst (search (demo_llm demo_fenced_reply) ''q'' ''u1'' [''f1''] demo_search_world)
     = Inr (map chunk_entry [demo_points ! 0, demo_points ! 1, demo_points ! 2])"
    using demo_search_semantic
    by (simp add: chunk_entry_def payload_get_def demo_points_def point_payload_def demo_doc_def)
  from semantic_search_deduplicates[OF h1 h2, of "demo_llm demo_fenced_reply" "''u1''"
      demo_search_world] demo_collect
  have "\<exists>kept. fst (search (demo_llm demo_fenced_reply) ''q'' ''u1'' [''f1''] demo_search_world)
              = Inr (map chunk_entry kept) \<and>
           distinct (map chunk_key kept) \<and> (\<forall>h\<in>set kept. valid_hit h)"
    by auto
  with h1 h2 demo_collect res show ?thesis by blast
qed

theorem summary_search_sorted_witness:
  "is_summary_request ''Summarize this file'' \<and> [''f1''] \<noteq> [] \<and>
   coll demo_search_world \<noteq> None \<and> \<not> next_call_fails demo_search_world \<and>
   fst (qdrant_scroll demo_env (query_filter ''u1'' [''f1'']) SUMMARY_CHUNK_LIMIT
          demo_search_world)
     = Inr [demo_points ! 2, demo_points ! 3, demo_points ! 0, demo_points ! 1] \<and>
   sortable_keys (map (\<lambda>p. chunk_index_key (payload p))
                    [demo_points ! 2, demo_points ! 3, demo_points ! 0, demo_points ! 1]) \<and>
   fst (search demo_env ''Summarize this file'' ''u1'' [''f1''] demo_search_world)
     = Inr [point_payload demo_doc 0 ''alpha'', point_payload demo_doc 1 ''beta'',
            point_payload demo_doc 2 ''gamma'', point_payload demo_doc 3 []] \<and>
   (\<exists>ps. fst (search demo_env ''Summarize this file'' ''u1'' [''f1''] demo_search_world) = Inr ps \<and>
         length ps \<le> SUMMARY_CHUNK_LIMIT \<and>
         sorted_wrt (\<lambda>a b. py_le (chunk_index_key a) (chunk_index_key b)) ps \<and>
         mset ps = mset (map payload
                           [demo_points ! 2, demo_points ! 3, demo_points ! 0, demo_points ! 1]))"
proof -
  let ?c = "\<lparr>vsize = 1024, metric = Cosine, indexes = [''user_id'', ''file_id''],
             points = demo_points\<rparr>"
  let ?page = "[demo_points ! 2, demo_points ! 3, demo_points ! 0, demo_points ! 1]"
  have h: "is_summary_request ''Summarize this file''" by (rule demo_summary)
  have f: "[''f1''] \<noteq> ([]::string list)" by simp
  have c: "coll demo_search_world = Some ?c" by (simp add: demo_search_world_def)
  have calm: "\<not> next_call_fails demo_search_world"
    by (simp add: next_call_fails_def demo_search_world_def)
  have page: "take SUMMARY_CHUNK_LIMIT
                (sort_key (\<lambda>p. id_key demo_env (pid p))
                   (filter (matches (query_filter ''u1'' [''f1''])) (points ?c))) = ?page"
    by (simp add: demo_search_eval)
  have scroll: "fst (qdrant_scroll demo_env (query_filter ''u1'' [''f1'']) SUMMARY_CHUNK_LIMIT
                       demo_search_world) = Inr ?page"
    by (simp add: demo_search_eval)
  have keys: "sortable_keys (map (\<lambda>p. chunk_index_key (payload p)) ?page)"
    by (simp add: sortable_keys_def demo_search_eval)
  from summary_search_sorted[OF h, of demo_env "''u1''" "[''f1'']" demo_search_world]
  obtain ps where ps: "fst (search demo_env ''Summarize this file'' ''u1'' [''f1'']
                              demo_search_world) = Inr ps"
      "length ps \<le> SUMMARY_CHUNK_LIMIT"
      "sorted_wrt (\<lambda>a b. py_le (chunk_index_key a) (chunk_index_key b)) ps"
    and rest: "\<forall>c. [''f1''] \<noteq> ([]::string list) \<and> coll demo_search_world = Some c \<and>
                 \<not> next_call_fails demo_search_world \<longrightarrow>
              (\<exists>page.
                 page = take SUMMARY_CHUNK_LIMIT
                          (sort_key (\<lambda>p. id_key demo_env (pid p))
                             (filter (matches (query_filter ''u1'' [''f1''])) (points c))) \<and>
                 mset page \<subseteq># mset (filter (matches (query_filter ''u1'' [''f1''])) (points c)) \<and>
                 length page = min SUMMARY_CHUNK_LIMIT
                                 (length (filter (matches (query_filter ''u1'' [''f1''])) (points c))) \<and>
                 (if sortable_keys (map (\<lambda>p. chunk_index_key (payload p)) page)
                  then mset ps = mset (map payload page)
                  else ps = []))"
    by blast
  from rest f c calm page keys have "mset ps = mset (map payload ?page)"
    by (metis (no_types, lifting))
  with ps have "\<exists>ps. fst (search demo_env ''Summarize this file'' ''u1'' [''f1'']
                            demo_search_world) = Inr ps \<and>
         length ps \<le> SUMMARY_CHUNK_LIMIT \<and>
         sorted_wrt (\<lambda>a b. py_le (chunk_index_key a) (chunk_index_key b)) ps \<and>
         mset ps = mset (map payload ?page)"
    by blast
  moreover have "coll demo_search_world \<noteq> None" using c by simp
  ultimately show ?thesis using h f calm scroll keys demo_search_summary by blast
qed

theorem search_swallows_failures_witness:
  "is_summary_request ''Summarize this file'' \<and>
   fst (search demo_env ''Summarize this file'' ''u1'' [''f1'']
          (demo_search_world\<lparr>faults := [Some (''timeout'', None)]\<rparr>)) = Inr [] \<and>
   \<not> is_summary_request ''boom'' \<and>
   JStr ''boom'' \<in> set (queries_of (fst (get_expanded_queries demo_env ''boom'' demo_search_world))) \<and>
   embed_query demo_env (JStr ''boom'') = Inl EmbeddingError \<and>
   fst (search demo_env ''boom'' ''u1'' [''f1''] demo_search_world) = Inr [] \<and>
   \<not> is_summary_request ''q'' \<and>
   queries_of (fst (get_expanded_queries (demo_llm demo_fenced_reply) ''q''
                      (demo_search_world\<lparr>faults := [None, Some (''timeout'', None)]\<rparr>)))
     = [JStr ''a'', JStr ''q''] \<and>
   faults (demo_search_world\<lparr>faults := [None, Some (''timeout'', None)]\<rparr>) ! 1
     = Some (''timeout'', None) \<and>
   fst (search (demo_llm demo_fenced_reply) ''q'' ''u1'' [''f1'']
          (demo_search_world\<lparr>faults := [None, Some (''timeout'', None)]\<rparr>)) = Inr [] \<and>
   fst (search (demo_llm demo_fenced_reply) ''q'' ''u1'' [''f1''] demo_search_world)
     = Inr [[(''text'', PyStr ''gamma''), (''original_filename'', PyStr ''a.pdf'')],
            [(''text'', PyStr ''alpha''), (''original_filename'', PyStr ''a.pdf'')],
            [(''text'', PyStr ''beta''), (''original_filename'', PyStr ''a.pdf'')]] \<and>
   fst (search (demo_llm demo_fenced_reply) ''q'' ''u1'' [''f1'']
          (demo_search_world\<lparr>coll := None\<rparr>)) = Inr []"
proof -
  let ?down = "demo_search_world\<lparr>faults := [Some (''timeout'', None)]\<rparr>"
  let ?late = "demo_search_world\<lparr>faults := [None, Some (''timeout'', None)]\<rparr>"
  let ?gone = "demo_search_world\<lparr>coll := None\<rparr>"
  have s1: "is_summary_request ''Summarize this file''" by (rule demo_summary)
  have f1: "faults ?down = Some (''timeout'', None) # []" by simp
  have b1: "\<not> is_summary_request ''boom''" by (rule demo_not_summary_boom)
  have b2: "JStr ''boom''
      \<in> set (queries_of (fst (get_expanded_queries demo_env ''boom'' demo_search_world)))"
    by (simp add: queries_of_def get_expanded_queries_def demo_env_def)
  have b3: "embed_query demo_env (JStr ''boom'') = Inl EmbeddingError"
    by (simp add: demo_env_def)
  have q1: "\<not> is_summary_request ''q''" by (rule demo_not_summary)
  have q2: "queries_of (fst (get_expanded_queries (demo_llm demo_fenced_reply) ''q'' ?late))
              = [JStr ''a'', JStr ''q'']"
    by (simp add: queries_of_def demo_expand_fenced)
  have q3: "faults ?late ! 1 = Some (''timeout'', None)" by simp
  have q4: "(1::nat) < length (queries_of (fst (get_expanded_queries (demo_llm demo_fenced_reply)
                                                  ''q'' ?late)))"
    "(1::nat) < length (faults ?late)"
    by (simp_all add: q2)
  have g1: "queries_of (fst (get_expanded_queries (demo_llm demo_fenced_reply) ''q'' ?gone)) \<noteq> []"
    by (simp add: queries_of_def demo_expand_fenced)
  have g2: "coll ?gone = None" by simp
  from search_swallows_failures[where env = demo_env and query = "''Summarize this file''"
      and uid = "''u1''" and fids = "[''f1'']" and w = ?down and m = "''timeout''" and s = None
      and fs = "[]"] s1 f1
  have r1: "fst (search demo_env ''Summarize this file'' ''u1'' [''f1''] ?down) = Inr []"
    by blast
  from search_swallows_failures[where env = demo_env and query = "''boom''"
      and uid = "''u1''" and fids = "[''f1'']" and w = demo_search_world
      and eq = "JStr ''boom''" and ?e1.0 = EmbeddingError] b1 b2 b3
  have r2: "fst (search demo_env ''boom'' ''u1'' [''f1''] demo_search_world) = Inr []"
    by blast
  from search_swallows_failures[where env = "demo_llm demo_fenced_reply" and query = "''q''"
      and uid = "''u1''" and fids = "[''f1'']" and w = ?late and m = "''timeout''" and s = None
      and i = 1] q1 q3 q4
  have r3: "fst (search (demo_llm demo_fenced_reply) ''q'' ''u1'' [''f1''] ?late) = Inr []"
    by blast
  from search_swallows_failures[where env = "demo_llm demo_fenced_reply" and query = "''q''"
      and uid = "''u1''" and fids = "[''f1'']" and w = ?gone] q1 g1 g2
  have r4: "fst (search (demo_llm demo_fenced_reply) ''q'' ''u1'' [''f1''] ?gone) = Inr []"
    by blast
  from s1 r1 b1 b2 b3 r2 q1 q2 q3 r3 demo_search_semantic r4 show ?thesis by blast
qed

theorem expansion_falls_back_to_query_witness:
  "db_client demo_env = None \<and>
   fst (get_expanded_queries demo_env ''q'' demo_search_world) = JArr [JStr ''q''] \<and>
   (\<exists>invoke content response_text e.
      db_client (demo_llm ''oops'') = Some invoke \<and> invoke ''q'' = Inr content \<and>
      strip_fence (py_strip content) = Inr response_text \<and>
      json_loads (demo_llm ''oops'') response_text = Inl e) \<and>
   fst (get_expanded_queries (demo_llm ''oops'') ''q'' demo_search_world) = JArr [JStr ''q''] \<and>
   \<not> is_summary_request ''q'' \<and> [''f1''] \<noteq> [] \<and>
   fst (search (demo_llm ''oops'') ''q'' ''u1'' [''f1''] demo_search_world)
     = Inr [[(''text'', PyStr ''beta''), (''original_filename'', PyStr ''a.pdf'')],
            [(''text'', PyStr ''alpha''), (''original_filename'', PyStr ''a.pdf'')]]"
proof -
  have a1: "db_client demo_env = None" by (simp add: demo_env_def)
  have a2: "\<exists>invoke content response_text e.
      db_client (demo_llm ''oops'') = Some invoke \<and> invoke ''q'' = Inr content \<and>
      strip_fence (py_strip content) = Inr response_text \<and>
      json_loads (demo_llm ''oops'') response_text = Inl e"
  proof (intro exI conjI)
    show "db_client (demo_llm ''oops'') = Some (\<lambda>q. Inr ''oops'')"
      by (simp add: demo_llm_def)
    show "(\<lambda>q::string. (Inr ''oops'' :: error + string)) ''q'' = Inr ''oops''" by simp
    show "strip_fence (py_strip ''oops'') = Inr ''oops''"
      by (simp add: strip_fence_def py_strip_def py_isspace_def json_fence_def)
    show "json_loads (demo_llm ''oops'') ''oops'' = Inl JSONDecodeError"
      by (simp add: demo_llm_def demo_json_loads_def demo_known_def demo_json_array_def)
  qed
  have q1: "\<not> is_summary_request ''q''" by (rule demo_not_summary)
  have q2: "[''f1''] \<noteq> ([]::string list)" by simp
  from expansion_falls_back_to_query[of demo_env "''q''" demo_search_world] a1
  have r1: "fst (get_expanded_queries demo_env ''q'' demo_search_world) = JArr [JStr ''q'']"
    by blast
  from expansion_falls_back_to_query[of "demo_llm ''oops''" "''q''" demo_search_world
      "[''f1'']" "''u1''"] a2 q1 q2
  have r2: "fst (get_expanded_queries (demo_llm ''oops'') ''q'' demo_search_world)
              = JArr [JStr ''q'']"
    and r3: "fst (search (demo_llm ''oops'') ''q'' ''u1'' [''f1''] demo_search_world) =
              (case embed_query (demo_llm ''oops'') (JStr ''q'') of
                 Inl e \<Rightarrow> Inr []
               | Inr query_vector \<Rightarrow>
                   (case fst (qdrant_search (demo_llm ''oops'') query_vector
                                (query_filter ''u1'' [''f1'']) TOP_K_RESULTS demo_search_world) of
                      Inl e \<Rightarrow> Inr []
                    | Inr search_results \<Rightarrow> Inr (map snd (dedup_hits [] search_results))))"
    by blast+
  have r4: "fst (search (demo_llm ''oops'') ''q'' ''u1'' [''f1''] demo_search_world)
     = Inr [[(''text'', PyStr ''beta''), (''original_filename'', PyStr ''a.pdf'')],
            [(''text'', PyStr ''alpha''), (''original_filename'', PyStr ''a.pdf'')]]"
    unfolding r3 by (simp add: demo_search_eval)
  from a1 r1 a2 r2 q1 q2 r4 show ?thesis by blast
qed

theorem semantic_search_bound_witness:
  "\<not> is_summary_request ''q'' \<and>
   queries_of (fst (get_expanded_queries (demo_llm demo_fenced_reply) ''q'' demo_search_world))
     = [JStr ''a'', JStr ''q''] \<and>
   (\<exists>ps. fst (search (demo_llm demo_fenced_reply) ''q'' ''u1'' [''f1''] demo_search_world) = Inr ps \<and>
         length ps = 3 \<and> length ps \<le> TOP_K_RESULTS * 2)"
proof -
  have h: "\<not> is_summary_request ''q''" by (rule demo_not_summary)
  have q: "queries_of (fst (get_expanded_queries (demo_llm demo_fenced_reply) ''q''
                              demo_search_world)) = [JStr ''a'', JStr ''q'']"
    by (simp add: queries_of_def demo_expand_fenced)
  from semantic_search_bound[OF h, of "demo_llm demo_fenced_reply" "''u1''" "[''f1'']"
      demo_search_world] q demo_search_semantic
  have "\<exists>ps. fst (search (demo_llm demo_fenced_reply) ''q'' ''u1'' [''f1''] demo_search_world) = Inr ps \<and>
         length ps = 3 \<and> length ps \<le> TOP_K_RESULTS * 2"
    by auto
  with h q show ?thesis by blast
qed

end
